theory Spec2Isabelle
  imports Complex_Main
begin

section \<open>The arithmetic of JavaScript numbers\<close>

text \<open>
  A JavaScript \<open>number\<close> is an IEEE 754 double. A finite double is modelled by the real
  number it denotes, and every arithmetic operation returns the exact result rounded to
  the nearest double, ties to the even significand (\<open>rnd\<close>). The significand has 53 bits
  and the exponent is at least -1022, so that results below \<open>2^-1022\<close> in magnitude are
  rounded to a multiple of \<open>2^-1074\<close> (gradual underflow) and the smallest ones to 0. The
  exponent has no upper bound here: a result of magnitude \<open>2^1024\<close> or more, which is
  \<open>Infinity\<close> for the code (and \<open>NaN\<close> after it), is outside the model, and the theorems
  that depend on the size of a number bound the inputs so that it does not occur. No
  division of the code has the divisor 0: the lengths and totals are tested before, and
  the divisor of \<open>calculateCorrelation\<close> is shown not to be 0
  (\<open>correlation_divisor_nonzero\<close>). Counts and indices are natural numbers; they are far
  below \<open>2^53\<close>, so their conversion to a number is exact.
\<close>

definition roundEven :: "real \<Rightarrow> int" where
  "roundEven r =
     (let f = \<lfloor>r\<rfloor>; d = r - of_int f
      in if d < 1/2 then f else if d > 1/2 then f + 1 else if even f then f else f + 1)"

text \<open>
  For \<open>x \<noteq> 0\<close> with \<open>2^e \<le> |x| < 2^(e+1)\<close> and \<open>e \<ge> -1022\<close> the doubles around \<open>x\<close> are the
  multiples of \<open>2^(e-52)\<close>; below \<open>2^-1022\<close> they are the multiples of \<open>2^-1074\<close>.
\<close>

definition rnd :: "real \<Rightarrow> real" where
  "rnd x =
     (if x = 0 then 0
      else let e = max \<lfloor>log 2 \<bar>x\<bar>\<rfloor> (- 1022); u = 2 powr (of_int e - 52)
           in u * of_int (roundEven (x / u)))"

text \<open>
  The unit roundoff \<open>2^-53\<close>, which bounds the relative error of a rounding in the normal
  range, and the smallest positive normal double \<open>2^-1022\<close>.
\<close>

definition unitRoundoff :: real where
  "unitRoundoff = 1 / 2 ^ 53"

definition minNormal :: real where
  "minNormal = 1 / 2 ^ 1022"

definition fadd :: "real \<Rightarrow> real \<Rightarrow> real" where
  "fadd x y = rnd (x + y)"

definition fsub :: "real \<Rightarrow> real \<Rightarrow> real" where
  "fsub x y = rnd (x - y)"

definition fmul :: "real \<Rightarrow> real \<Rightarrow> real" where
  "fmul x y = rnd (x * y)"

definition fdiv :: "real \<Rightarrow> real \<Rightarrow> real" where
  "fdiv x y = rnd (x / y)"

definition fsqrt :: "real \<Rightarrow> real" where
  "fsqrt x = rnd (sqrt x)"

text \<open>\<open>Math.pow(v, 2)\<close>, taken to return the rounded square.\<close>

definition fsquare :: "real \<Rightarrow> real" where
  "fsquare v = rnd (v * v)"

section \<open>The statistics engine (src/utils/statistics.ts)\<close>

text \<open>\<open>Array.reduce\<close> with an initial value is \<open>foldl\<close>.\<close>

definition calculateAverage :: "real list \<Rightarrow> real" where
  "calculateAverage data =
     (if length data = 0 then 0
      else fdiv (foldl (\<lambda>sum value. fadd sum value) 0 data) (real (length data)))"

definition calculatePassPercentage :: "real list \<Rightarrow> real \<Rightarrow> real" where
  "calculatePassPercentage data threshold =
     (if length data = 0 then 0
      else let passed = length (filter (\<lambda>grade. grade \<ge> threshold) data)
           in fmul (fdiv (real passed) (real (length data))) 100)"

definition calculateStandardDeviation :: "real list \<Rightarrow> real" where
  "calculateStandardDeviation data =
     (if length data = 0 then 0
      else let average = calculateAverage data;
               variance = fdiv (foldl (\<lambda>acc val. fadd acc (fsquare (fsub val average))) 0 data)
                            (real (length data))
           in fsqrt variance)"

text \<open>
  \<open>calculateMode\<close> keeps three mutable variables while it scans the data: the table
  \<open>frequency\<close>, \<open>maxFreq\<close> and \<open>mode\<close> (here \<open>modeVal\<close>, since \<open>mode\<close> is a field of
  \<open>SubjectStats\<close> below). One call of the \<open>forEach\<close> callback is \<open>modeStep\<close>; the table
  never holds a zero, so \<open>frequency[val] || 0\<close> is the stored count or 0.
\<close>

record modeState =
  frequency :: "real \<rightharpoonup> nat"
  maxFreq :: nat
  modeVal :: real

definition modeStep :: "modeState \<Rightarrow> real \<Rightarrow> modeState" where
  "modeStep st val =
     (let f = (case frequency st val of None \<Rightarrow> 0 | Some c \<Rightarrow> c) + 1;
          st' = st\<lparr>frequency := (frequency st)(val \<mapsto> f)\<rparr>
      in if f > maxFreq st' then st'\<lparr>maxFreq := f, modeVal := val\<rparr> else st')"

definition calculateMode :: "real list \<Rightarrow> real" where
  "calculateMode data =
     (case data of
        [] \<Rightarrow> 0
      | d0 # _ \<Rightarrow>
          modeVal (foldl modeStep \<lparr>frequency = Map.empty, maxFreq = 0, modeVal = d0\<rparr> data))"

definition calculateCV :: "real \<Rightarrow> real \<Rightarrow> real" where
  "calculateCV average stdDev = (if average = 0 then 0 else fmul (fdiv stdDev average) 100)"

text \<open>
  In \<open>calculateCorrelation\<close> the numerator's callback reads \<open>y[i]\<close> at the index of the
  element of \<open>x\<close>; the guard \<open>n !== y.length\<close> has made the index valid.
\<close>

definition calculateCorrelation :: "real list \<Rightarrow> real list \<Rightarrow> real" where
  "calculateCorrelation x y =
     (let n = length x in
      if n \<noteq> length y \<or> n = 0 then 0
      else
        let xBar = calculateAverage x;
            yBar = calculateAverage y;
            numerator = foldl (\<lambda>sum (xi, i). fadd sum (fmul (fsub xi xBar) (fsub (y ! i) yBar))) 0
                          (zip x [0..<n]);
            denominatorX = fsqrt (foldl (\<lambda>sum xi. fadd sum (fsquare (fsub xi xBar))) 0 x);
            denominatorY = fsqrt (foldl (\<lambda>sum yi. fadd sum (fsquare (fsub yi yBar))) 0 y)
        in if denominatorX = 0 \<or> denominatorY = 0 then 0
           else fdiv numerator (fmul denominatorX denominatorY))"

section \<open>The data model (the interfaces Student, ClassMetadata, SubjectStats, GlobalStats)\<close>

text \<open>
  A JavaScript string is the list of its UTF-16 code units, so that the Arabic labels of
  the source and the white space class of its regular expressions can be written exactly.
  \<open>ascii\<close> turns an ASCII literal into such a string.
\<close>

type_synonym jsstring = "nat list"

definition ascii :: "string \<Rightarrow> jsstring" where
  "ascii s = map of_char s"

text \<open>
  A cell of the sheet is a text or a number, or it is absent: \<open>sheet_to_json\<close> with
  \<open>header: 1\<close> assigns the cells that have a value and leaves a hole in the row array for
  an empty cell. Reading a hole gives \<open>undefined\<close>, and \<open>forEach\<close>, \<open>filter\<close>, \<open>every\<close>
  and \<open>some\<close> do not call their callback on it. A row is the list of its cells and the
  sheet \<open>rawData\<close> the list of its rows.
\<close>

datatype cell = Absent | Text jsstring | Num real

type_synonym row = "cell list"
type_synonym grid = "row list"

text \<open>
  The interface \<open>Student\<close>. The annotations \<open>name: string\<close> and \<open>gender: string\<close> are
  not checked at run time: the parser stores the cells \<open>row[1]\<close> and \<open>row[3]\<close> as they
  are, so both fields hold a cell here. The field \<open>id\<close> is \<open>studentId\<close>, and the table
  \<open>grades\<close> is a map from the subject's name to the grade.
\<close>

record student =
  studentId :: jsstring
  name :: cell
  gender :: cell
  grades :: "jsstring \<rightharpoonup> real"
  semesterAverage :: real
  originalRow :: row
  isRepeater :: bool
  sourceClass :: "jsstring option"

record classMetadata =
  schoolYear :: jsstring
  semester :: jsstring
  className :: jsstring
  level :: jsstring
  stream :: jsstring
  classNumber :: jsstring
  directorate :: jsstring
  schoolName :: jsstring
  isAggregated :: "bool option"

record subjectStats =
  subject :: jsstring
  average :: real
  passPercentage :: real
  stdDev :: real
  cv :: real
  mode :: real
  countAbove15 :: nat
  count10to14 :: nat
  count8to9 :: nat
  countBelow8 :: nat
  countAbove10 :: nat
  comparison :: jsstring

record globalStats =
  totalStudents :: nat
  totalFemales :: nat
  amazighStudents :: nat
  artStudents :: nat
  musicStudents :: nat
  successfulStudents :: nat
  successfulFemales :: nat
  successfulMales :: nat
  overallSuccessRate :: real
  femaleSuccessRate :: real
  maleSuccessRate :: real

section \<open>The statistic views (src/utils/dataProcessing.ts)\<close>

text \<open>
  The gender labels of the source: \<open>femaleLabel\<close> is the word "untha" (alef with hamza
  above, noon, theh, alef maksura) and \<open>maleLabel\<close> the word "dhakar" (thal, kaf, reh).
  The three comparison labels read "above the general average", "below the general
  average" and "equal to the general average".
\<close>

definition femaleLabel :: jsstring where
  "femaleLabel = [0x623, 0x646, 0x62B, 0x649]"

definition maleLabel :: jsstring where
  "maleLabel = [0x630, 0x643, 0x631]"

definition aboveLabel :: jsstring where
  "aboveLabel = [0x623, 0x639, 0x644, 0x649, 0x20, 0x645, 0x646, 0x20, 0x627, 0x644, 0x645,
     0x639, 0x62F, 0x644, 0x20, 0x627, 0x644, 0x639, 0x627, 0x645]"

definition belowLabel :: jsstring where
  "belowLabel = [0x623, 0x642, 0x644, 0x20, 0x645, 0x646, 0x20, 0x627, 0x644, 0x645, 0x639,
     0x62F, 0x644, 0x20, 0x627, 0x644, 0x639, 0x627, 0x645]"

definition equalLabel :: jsstring where
  "equalLabel = [0x645, 0x633, 0x627, 0x648, 0x64A, 0x20, 0x644, 0x644, 0x645, 0x639, 0x62F,
     0x644, 0x20, 0x627, 0x644, 0x639, 0x627, 0x645]"

text \<open>
  \<open>students.map(s => s.grades[subject]).filter(g => typeof g === 'number')\<close>: the grades
  of the students who have one in the subject, in the order of the students.
\<close>

definition gradesOf :: "student list \<Rightarrow> jsstring \<Rightarrow> real list" where
  "gradesOf students subj = List.map_filter (\<lambda>s. grades s subj) students"

text \<open>
  Every view is wrapped in \<open>memoize\<close>, which returns the last result when it is called
  again with the very same array objects. The arrays are never changed in place, so the
  wrapped function returns what its body computes; the body is what is modelled.
\<close>

definition getSubjectAnalysis :: "student list \<Rightarrow> jsstring list \<Rightarrow> subjectStats list" where
  "getSubjectAnalysis students subjects =
     (let globalAverage = calculateAverage (map semesterAverage students) in
      map (\<lambda>subj.
        let grades = gradesOf students subj;
            average = calculateAverage grades;
            stdDev = calculateStandardDeviation grades
        in \<lparr>subject = subj,
            average = average,
            passPercentage = calculatePassPercentage grades 10,
            stdDev = stdDev,
            cv = calculateCV average stdDev,
            mode = calculateMode grades,
            countAbove15 = length (filter (\<lambda>g. g \<ge> 15) grades),
            count10to14 = length (filter (\<lambda>g. g \<ge> 10 \<and> g < 15) grades),
            count8to9 = length (filter (\<lambda>g. g \<ge> 8 \<and> g < 10) grades),
            countBelow8 = length (filter (\<lambda>g. g < 8) grades),
            countAbove10 = length (filter (\<lambda>g. g \<ge> 10) grades),
            comparison = (if average > globalAverage then aboveLabel
                          else if average < globalAverage then belowLabel
                          else equalLabel)\<rparr>) subjects)"

definition getDistributionStats :: "student list \<Rightarrow> jsstring list \<Rightarrow> subjectStats list" where
  "getDistributionStats students subjects =
     map (\<lambda>subj.
        let grades = gradesOf students subj
        in \<lparr>subject = subj,
            average = calculateAverage grades,
            passPercentage = calculatePassPercentage grades 10,
            stdDev = 0, cv = 0, mode = 0,
            countAbove15 = length (filter (\<lambda>g. g \<ge> 15) grades),
            count10to14 = length (filter (\<lambda>g. g \<ge> 10 \<and> g < 15) grades),
            count8to9 = length (filter (\<lambda>g. g \<ge> 8 \<and> g < 10) grades),
            countBelow8 = length (filter (\<lambda>g. g < 8) grades),
            countAbove10 = length (filter (\<lambda>g. g \<ge> 10) grades),
            comparison = []\<rparr>) subjects"

definition getCategoryGlobalStats :: "student list \<Rightarrow> globalStats" where
  "getCategoryGlobalStats students =
     (let totalStudents = length students;
          totalFemales = length (filter (\<lambda>s. gender s = Text femaleLabel) students);
          successfulStudents = length (filter (\<lambda>s. semesterAverage s \<ge> 10) students);
          successfulFemales =
            length (filter (\<lambda>s. semesterAverage s \<ge> 10 \<and> gender s = Text femaleLabel) students);
          successfulMales =
            length (filter (\<lambda>s. semesterAverage s \<ge> 10 \<and> gender s = Text maleLabel) students);
          totalMales = totalStudents - totalFemales
      in \<lparr>totalStudents = totalStudents,
          totalFemales = totalFemales,
          amazighStudents = 0,
          artStudents = 0,
          musicStudents = 0,
          successfulStudents = successfulStudents,
          successfulFemales = successfulFemales,
          successfulMales = successfulMales,
          overallSuccessRate =
            (if totalStudents \<noteq> 0
             then fmul (fdiv (real successfulStudents) (real totalStudents)) 100 else 0),
          femaleSuccessRate =
            (if totalFemales \<noteq> 0
             then fmul (fdiv (real successfulFemales) (real totalFemales)) 100 else 0),
          maleSuccessRate =
            (if totalMales \<noteq> 0
             then fmul (fdiv (real successfulMales) (real totalMales)) 100 else 0)\<rparr>)"

section \<open>Spreadsheet ingestion (parseExcelFile in src/components/RepeaterAnalysis.tsx)\<close>

subsection \<open>The JavaScript operations the parser uses\<close>

text \<open>
  Three built-in functions of the runtime are taken as parameters, so that every theorem
  holds whatever they compute: \<open>String(n)\<close> of a number, \<open>parseFloat\<close> (with \<open>None\<close>
  for \<open>NaN\<close>) and \<open>String.prototype.toLowerCase\<close>.
\<close>

record platform =
  numberToString :: "real \<Rightarrow> jsstring"
  parseFloat :: "jsstring \<Rightarrow> real option"
  toLowerCase :: "jsstring \<Rightarrow> jsstring"

text \<open>Truthiness of a cell: \<open>undefined\<close>, the empty string and 0 are falsy.\<close>

fun truthy :: "cell \<Rightarrow> bool" where
  "truthy Absent = False"
| "truthy (Text s) = (s \<noteq> [])"
| "truthy (Num n) = (n \<noteq> 0)"

text \<open>\<open>row[i]\<close>: reading past the end of an array gives \<open>undefined\<close>.\<close>

definition cellAt :: "row \<Rightarrow> nat \<Rightarrow> cell" where
  "cellAt r i = (if i < length r then r ! i else Absent)"

text \<open>\<open>v || d\<close> on cells.\<close>

definition orElse :: "cell \<Rightarrow> cell \<Rightarrow> cell" where
  "orElse v d = (if truthy v then v else d)"

text \<open>
  The string of a cell inside \<open>Array.prototype.join\<close>, where \<open>undefined\<close> gives the
  empty string; \<open>String(v)\<close> agrees with it on texts and numbers.
\<close>

fun cellToString :: "platform \<Rightarrow> cell \<Rightarrow> jsstring" where
  "cellToString P Absent = []"
| "cellToString P (Text s) = s"
| "cellToString P (Num n) = numberToString P n"

text \<open>
  The name under which a header cell is used as a key of \<open>grades\<close>. The code never uses
  an absent header cell as a key, since \<open>forEach\<close> and \<open>filter\<close> skip the holes; the first
  equation is what \<open>String(undefined)\<close> would give.
\<close>

fun propertyKey :: "platform \<Rightarrow> cell \<Rightarrow> jsstring" where
  "propertyKey P Absent = ascii ''undefined''"
| "propertyKey P (Text s) = s"
| "propertyKey P (Num n) = numberToString P n"

fun joinStrings :: "jsstring \<Rightarrow> jsstring list \<Rightarrow> jsstring" where
  "joinStrings sep [] = []"
| "joinStrings sep [w] = w"
| "joinStrings sep (w # v # ws) = w @ sep @ joinStrings sep (v # ws)"

definition joinCells :: "platform \<Rightarrow> row \<Rightarrow> jsstring" where
  "joinCells P r = joinStrings [0x20] (map (cellToString P) r)"

text \<open>
  The class \<open>\s\<close> of a regular expression, which is also what \<open>trim\<close> removes: the
  white space and line terminator code points of ECMAScript.
\<close>

definition isWhiteSpace :: "nat \<Rightarrow> bool" where
  "isWhiteSpace c \<longleftrightarrow>
     c \<in> {0x9, 0xA, 0xB, 0xC, 0xD, 0x20, 0xA0, 0x1680, 0x2028, 0x2029, 0x202F, 0x205F,
          0x3000, 0xFEFF}
     \<or> (0x2000 \<le> c \<and> c \<le> 0x200A)"

text \<open>\<open>s.replace(/\s+/g, ' ')\<close>: every maximal run of white space becomes one space.\<close>

function collapseSpaces :: "jsstring \<Rightarrow> jsstring" where
  "collapseSpaces [] = []"
| "collapseSpaces (c # cs) =
     (if isWhiteSpace c then 0x20 # collapseSpaces (dropWhile isWhiteSpace cs)
      else c # collapseSpaces cs)"
  by pat_completeness auto
termination
  by (relation "measure length") (auto simp: length_dropWhile_le less_Suc_eq_le)

definition trim :: "jsstring \<Rightarrow> jsstring" where
  "trim s = rev (dropWhile isWhiteSpace (rev (dropWhile isWhiteSpace s)))"

text \<open>\<open>s.split(' ')\<close>; the empty string splits into one empty word.\<close>

fun splitOn :: "nat \<Rightarrow> jsstring \<Rightarrow> jsstring list" where
  "splitOn sep [] = [[]]"
| "splitOn sep (c # cs) =
     (if c = sep then [] # splitOn sep cs
      else (case splitOn sep cs of [] \<Rightarrow> [[c]] | w # ws \<Rightarrow> (c # w) # ws))"

text \<open>\<open>s.includes(k)\<close> is \<open>includesStr\<close>: some suffix of \<open>s\<close> starts with \<open>k\<close>.\<close>

fun startsWith :: "jsstring \<Rightarrow> jsstring \<Rightarrow> bool" where
  "startsWith s [] = True"
| "startsWith [] (k # ks) = False"
| "startsWith (c # cs) (k # ks) = (c = k \<and> startsWith cs ks)"

fun includesStr :: "jsstring \<Rightarrow> jsstring \<Rightarrow> bool" where
  "includesStr [] k = (k = [])"
| "includesStr (c # cs) k = (startsWith (c # cs) k \<or> includesStr cs k)"

text \<open>\<open>s.replace(',', '.')\<close> with a string pattern replaces the first occurrence only.\<close>

fun replaceFirst :: "nat \<Rightarrow> nat \<Rightarrow> jsstring \<Rightarrow> jsstring" where
  "replaceFirst a b [] = []"
| "replaceFirst a b (c # cs) = (if c = a then b # cs else c # replaceFirst a b cs)"

text \<open>The decimal digits of an index, as a template literal prints it.\<close>

fun decimal :: "nat \<Rightarrow> jsstring" where
  "decimal n = (if n < 10 then [0x30 + n] else decimal (n div 10) @ [0x30 + n mod 10])"

declare decimal.simps [simp del]

subsection \<open>Metadata extraction\<close>

text \<open>\<open>words[i] || ''\<close>.\<close>

definition wordAt :: "jsstring list \<Rightarrow> nat \<Rightarrow> jsstring" where
  "wordAt words i = (if i < length words then words ! i else [])"

definition emptyMetadata :: classMetadata where
  "emptyMetadata =
     \<lparr>schoolYear = [], semester = [], className = [], level = [], stream = [],
      classNumber = [], directorate = [], schoolName = [], isAggregated = None\<rparr>"

definition extractMetadata :: "platform \<Rightarrow> grid \<Rightarrow> classMetadata" where
  "extractMetadata P rawData =
     (let metadata = emptyMetadata;
          metadata =
            (if length rawData > 2
             then metadata\<lparr>directorate := trim (collapseSpaces (joinCells P (rawData ! 2)))\<rparr>
             else metadata);
          metadata =
            (if length rawData > 3
             then metadata\<lparr>schoolName := trim (collapseSpaces (joinCells P (rawData ! 3)))\<rparr>
             else metadata)
      in if length rawData > 4 then
           (let fullText = trim (collapseSpaces (joinCells P (filter truthy (rawData ! 4))));
                words = splitOn 0x20 fullText
            in if length words \<ge> 7 then
                 (let lvl = trim (wordAt words 5 @ [0x20] @ wordAt words 6);
                      classNum = wordAt words (length words - 1);
                      strm = (if length words > 8
                              then trim (joinStrings [0x20] (drop 7 (take (length words - 1) words)))
                              else [])
                  in metadata\<lparr>semester := trim (wordAt words 2 @ [0x20] @ wordAt words 3),
                       schoolYear := trim (wordAt words 4),
                       level := lvl,
                       classNumber := classNum,
                       stream := strm,
                       className :=
                         trim (collapseSpaces (lvl @ [0x20] @ strm @ [0x20] @ classNum))\<rparr>)
               else metadata)
         else metadata)"

subsection \<open>Header row detection\<close>

text \<open>
  The keywords are the Arabic words for "the name" and "the surname", and the French
  \<open>nom\<close> and \<open>prenom\<close> (with e acute).
\<close>

definition keywordIsm :: jsstring where
  "keywordIsm =
     [0x627, 0x644, 0x627, 0x633, 0x645]"

definition keywordLaqab :: jsstring where
  "keywordLaqab =
     [0x627, 0x644, 0x644, 0x642, 0x628]"

definition keywordNom :: jsstring where
  "keywordNom =
     [0x6E, 0x6F, 0x6D]"

definition keywordPrenom :: jsstring where
  "keywordPrenom =
     [0x70, 0x72, 0xE9, 0x6E, 0x6F, 0x6D]"

definition isHeaderRow :: "platform \<Rightarrow> row \<Rightarrow> bool" where
  "isHeaderRow P r =
     (let rowString = toLowerCase P (joinCells P (take 10 r))
      in includesStr rowString keywordIsm \<or> includesStr rowString keywordLaqab
         \<or> includesStr rowString keywordNom \<or> includesStr rowString keywordPrenom)"

text \<open>
  The \<open>for\<close> loop over the first 20 rows, from row \<open>i\<close> on; \<open>None\<close> is the value -1 that
  \<open>headerRowIndex\<close> keeps when no row matches.
\<close>

fun headerScan :: "platform \<Rightarrow> grid \<Rightarrow> nat \<Rightarrow> nat option" where
  "headerScan P [] i = None"
| "headerScan P (r # rest) i = (if isHeaderRow P r then Some i else headerScan P rest (Suc i))"

fun isText :: "cell \<Rightarrow> bool" where
  "isText (Text s) = True"
| "isText c = False"

definition headerRowIndex :: "platform \<Rightarrow> grid \<Rightarrow> nat" where
  "headerRowIndex P rawData =
     (case headerScan P (take (min (length rawData) 20) rawData) 0 of
        Some i \<Rightarrow> i
      | None \<Rightarrow> if length rawData > 5 \<and> list_ex isText (rawData ! 5) then 5 else 0)"

subsection \<open>Trailing-row pruning\<close>

text \<open>
  The \<open>while\<close> loop that pops the last row as long as every cell of it is falsy
  (\<open>emptyRow\<close> is \<open>row.every((cell) => !cell)\<close>). Every row of the sheet is an array, so the
  test \<open>!jsonData[jsonData.length - 1]\<close> never holds.
\<close>

definition emptyRow :: "row \<Rightarrow> bool" where
  "emptyRow r = list_all (\<lambda>cell. \<not> truthy cell) r"

function popEmptyRows :: "grid \<Rightarrow> grid" where
  "popEmptyRows jsonData =
     (if length jsonData > 0 \<and> emptyRow (last jsonData)
      then popEmptyRows (butlast jsonData)
      else jsonData)"
  by pat_completeness auto
termination
  by (relation "measure length") auto

declare popEmptyRows.simps [simp del]

text \<open>
  The removal of the summary row. Both branches of the inner test on \<open>lastRow[1]\<close> pop
  the row.
\<close>

definition popSummaryRow :: "grid \<Rightarrow> grid" where
  "popSummaryRow jsonData =
     (if length jsonData > 1 then
        (let lastRow = last jsonData
         in if \<not> truthy (cellAt lastRow 1) then butlast jsonData else butlast jsonData)
      else jsonData)"

subsection \<open>Student records\<close>

text \<open>
  \<open>yesLabel\<close> is the Arabic word for "yes" and \<open>unspecifiedLabel\<close> the words for "not
  specified".
\<close>

definition yesLabel :: jsstring where
  "yesLabel =
     [0x646, 0x639, 0x645]"

definition unspecifiedLabel :: jsstring where
  "unspecifiedLabel =
     [0x63A, 0x64A, 0x631, 0x20, 0x645, 0x62D, 0x62F, 0x62F]"

text \<open>
  The coercion of a grade cell: a text is parsed after its first comma has become a dot,
  a number is taken as it is, and \<open>None\<close> says that the result is not a number
  (\<open>undefined\<close> or \<open>NaN\<close>).
\<close>

fun toNumber :: "platform \<Rightarrow> cell \<Rightarrow> real option" where
  "toNumber P Absent = None"
| "toNumber P (Text s) = parseFloat P (replaceFirst 0x2C 0x2E s)"
| "toNumber P (Num n) = Some n"

text \<open>
  \<open>grades[subj] = numVal\<close> on the object literal \<open>{}\<close>. Assigning a number to the name
  \<open>__proto__\<close> calls the setter of \<open>Object.prototype\<close>, which ignores it: no property is
  stored under that name.
\<close>

definition storeGrade :: "(jsstring \<rightharpoonup> real) \<Rightarrow> jsstring \<Rightarrow> real \<Rightarrow> (jsstring \<rightharpoonup> real)" where
  "storeGrade g key numVal = (if key = ascii ''__proto__'' then g else g(key \<mapsto> numVal))"

text \<open>
  One step of \<open>subjects.forEach((subj, i) => ...)\<close>. \<open>subjects\<close> is a slice of the header
  row and keeps its holes; \<open>forEach\<close> passes over a hole without calling the callback,
  while the index \<open>i\<close> still counts it.
\<close>

definition gradeStep ::
    "platform \<Rightarrow> row \<Rightarrow> (jsstring \<rightharpoonup> real) \<Rightarrow> cell \<times> nat \<Rightarrow> (jsstring \<rightharpoonup> real)" where
  "gradeStep P gradesData g = (\<lambda>(subj, i).
     if subj = Absent then g
     else
       (case toNumber P (cellAt gradesData i) of
          Some numVal \<Rightarrow> storeGrade g (propertyKey P subj) numVal
        | None \<Rightarrow> g))"

text \<open>
  The callback of \<open>jsonData.slice(1).map\<close>; \<open>None\<close> is the \<open>null\<close> of a row without a
  name, which the following \<open>filter\<close> removes.
\<close>

definition studentOfRow ::
    "platform \<Rightarrow> classMetadata \<Rightarrow> cell list \<Rightarrow> row \<Rightarrow> nat \<Rightarrow> student option" where
  "studentOfRow P metadata subjects r index =
     (let name = cellAt r 1 in
      if \<not> truthy name then None
      else
        let gender = orElse (cellAt r 3) (Text unspecifiedLabel);
            repeaterVal = cellAt r 4;
            isRepeater = (trim (cellToString P (orElse repeaterVal (Text []))) = yesLabel);
            gradesData = drop 5 r;
            grades = foldl (gradeStep P gradesData) Map.empty
                       (zip subjects [0..<length subjects]);
            semesterAverage =
              (if length gradesData > 0 then
                 (case toNumber P (last gradesData) of Some numAvg \<Rightarrow> numAvg | None \<Rightarrow> 0)
               else 0)
        in Some \<lparr>studentId = ascii ''temp-'' @ decimal index,
                 name = name,
                 gender = gender,
                 grades = grades,
                 semesterAverage = semesterAverage,
                 originalRow = r,
                 isRepeater = isRepeater,
                 sourceClass = Some (classNumber metadata)\<rparr>)"

definition buildStudents ::
    "platform \<Rightarrow> classMetadata \<Rightarrow> cell list \<Rightarrow> grid \<Rightarrow> student list" where
  "buildStudents P metadata subjects rows =
     List.map_filter (\<lambda>(r, index). studentOfRow P metadata subjects r index)
       (zip rows [0..<length rows])"

text \<open>
  The candidate subjects: the header cells from column 5 on, without the last one. An
  empty header cell among them stays as a hole (\<open>Absent\<close>).
\<close>

definition candidateSubjects :: "row \<Rightarrow> cell list" where
  "candidateSubjects headerRow =
     (if length headerRow > 5 then
        (let rawColumns = drop 5 headerRow
         in if length rawColumns > 0 then butlast rawColumns else [])
      else [])"

definition hasPositiveGrade :: "platform \<Rightarrow> cell \<Rightarrow> student \<Rightarrow> bool" where
  "hasPositiveGrade P subj s =
     (case grades s (propertyKey P subj) of Some grade \<Rightarrow> grade > 0 | None \<Rightarrow> False)"

subsection \<open>The parser\<close>

text \<open>
  Every \<open>throw\<close> of the source is a value of \<open>error\<close>; \<open>MetadataMismatch\<close> carries the
  field that differs, the name of the file, the value of that file and the value of the
  first file.
\<close>

datatype mismatchField = LevelField | StreamField

datatype error =
    EmptyInput
  | InsufficientData
  | UnsupportedHeader
  | ReadFailure
  | MetadataMismatch mismatchField jsstring jsstring jsstring
  | SingleModeManyFiles
  | NoValidData

text \<open>
  What \<open>resolve\<close> receives: the fields \<open>students\<close>, \<open>subjects\<close> and \<open>metadata\<close> of the
  source. The subjects are the header cells as they are.
\<close>

record parseResult =
  resStudents :: "student list"
  resSubjects :: "cell list"
  resMetadata :: classMetadata

text \<open>
  \<open>rowsFromHeader\<close> is \<open>jsonData\<close> after the \<open>while\<close> loop: the rows from the header row
  on, without the trailing empty rows. \<open>pruneRows\<close> is \<open>jsonData\<close> after the summary row has
  been removed as well.
\<close>

definition rowsFromHeader :: "platform \<Rightarrow> grid \<Rightarrow> grid" where
  "rowsFromHeader P rawData =
     (let jsonData = drop (headerRowIndex P rawData) rawData
      in popEmptyRows jsonData)"

definition pruneRows :: "platform \<Rightarrow> grid \<Rightarrow> grid" where
  "pruneRows P rawData = popSummaryRow (rowsFromHeader P rawData)"

text \<open>
  \<open>parseSheet\<close> is the body of \<open>reader.onload\<close> once the first sheet has been read into
  \<open>rawData\<close>. \<open>subjects.filter\<close> skips the holes of \<open>subjects\<close>, so that the active
  subjects are header cells that are present.
\<close>

definition parseSheet :: "platform \<Rightarrow> grid \<Rightarrow> error + parseResult" where
  "parseSheet P rawData =
     (if length rawData = 0 then Inl EmptyInput
      else
        let metadata = extractMetadata P rawData;
            jsonData = pruneRows P rawData
        in if length jsonData < 1 then Inl InsufficientData
           else
             let headerRow = jsonData ! 0
             in if length headerRow < 3 then Inl UnsupportedHeader
                else
                  let subjects = candidateSubjects headerRow;
                      students = buildStudents P metadata subjects (drop 1 jsonData);
                      activeSubjects =
                        filter (\<lambda>subj. subj \<noteq> Absent \<and> list_ex (hasPositiveGrade P subj) students)
                          subjects
                  in Inr \<lparr>resStudents = students, resSubjects = activeSubjects,
                           resMetadata = metadata\<rparr>)"

text \<open>
  A \<open>File\<close> of the browser (the record \<open>upload\<close>) has a name and, when its bytes can
  be read, a first sheet; \<open>None\<close> is the file whose read fails (\<open>reader.onerror\<close>). How
  the XLSX library decodes the bytes into the sheet is not modelled.
\<close>

record upload =
  fileName :: jsstring
  sheet :: "grid option"

definition parseExcelFile :: "platform \<Rightarrow> upload \<Rightarrow> error + parseResult" where
  "parseExcelFile P f =
     (case sheet f of None \<Rightarrow> Inl ReadFailure | Some rawData \<Rightarrow> parseSheet P rawData)"

section \<open>Loading one file or several (processFiles)\<close>

text \<open>
  The message of every error. The two messages of a mismatch are template literals: they
  quote the name of the file, then the value of that file and the value of the first file
  in brackets.
\<close>

definition msgEmptyInput :: jsstring where
  "msgEmptyInput =
     [0x627, 0x644, 0x645, 0x644, 0x641, 0x20, 0x641, 0x627, 0x631, 0x63A, 0x2E]"

definition msgInsufficientData :: jsstring where
  "msgInsufficientData =
     [0x627, 0x644, 0x645, 0x644, 0x641, 0x20, 0x644, 0x627, 0x20, 0x64A, 0x62D, 0x62A,
     0x648, 0x64A, 0x20, 0x639, 0x644, 0x649, 0x20, 0x628, 0x64A, 0x627, 0x646, 0x627,
     0x62A, 0x20, 0x643, 0x627, 0x641, 0x64A, 0x629, 0x2E]"

definition msgUnsupportedHeader :: jsstring where
  "msgUnsupportedHeader =
     [0x62A, 0x646, 0x633, 0x64A, 0x642, 0x20, 0x627, 0x644, 0x645, 0x644, 0x641, 0x20,
     0x63A, 0x64A, 0x631, 0x20, 0x645, 0x62F, 0x639, 0x648, 0x645, 0x2E]"

definition msgSingleModeManyFiles :: jsstring where
  "msgSingleModeManyFiles =
     [0x644, 0x642, 0x62F, 0x20, 0x627, 0x62E, 0x62A, 0x631, 0x62A, 0x20, 0x27, 0x62A,
     0x62D, 0x644, 0x64A, 0x644, 0x20, 0x642, 0x633, 0x645, 0x20, 0x648, 0x627, 0x62D,
     0x62F, 0x27, 0x60C, 0x20, 0x64A, 0x631, 0x62C, 0x649, 0x20, 0x631, 0x641, 0x639,
     0x20, 0x645, 0x644, 0x641, 0x20, 0x648, 0x627, 0x62D, 0x62F, 0x20, 0x641, 0x642,
     0x637, 0x20, 0x623, 0x648, 0x20, 0x627, 0x644, 0x62A, 0x628, 0x62F, 0x64A, 0x644,
     0x20, 0x644, 0x644, 0x648, 0x636, 0x639, 0x20, 0x627, 0x644, 0x645, 0x62A, 0x639,
     0x62F, 0x62F, 0x2E]"

definition msgNoValidData :: jsstring where
  "msgNoValidData =
     [0x644, 0x645, 0x20, 0x64A, 0x62A, 0x645, 0x20, 0x627, 0x633, 0x62A, 0x62E, 0x631,
     0x627, 0x62C, 0x20, 0x628, 0x64A, 0x627, 0x646, 0x627, 0x62A, 0x20, 0x635, 0x627,
     0x644, 0x62D, 0x629, 0x2E]"

definition msgMismatchHead :: jsstring where
  "msgMismatchHead =
     [0x62E, 0x637, 0x623, 0x3A, 0x20, 0x627, 0x644, 0x645, 0x644, 0x641, 0x20, 0x22]"

definition msgLevelDiffers :: jsstring where
  "msgLevelDiffers =
     [0x22, 0x20, 0x64A, 0x62E, 0x62A, 0x644, 0x641, 0x20, 0x641, 0x64A, 0x20, 0x627,
     0x644, 0x645, 0x633, 0x62A, 0x648, 0x649, 0x20, 0x627, 0x644, 0x62F, 0x631, 0x627,
     0x633, 0x64A, 0x20, 0x28]"

definition msgStreamDiffers :: jsstring where
  "msgStreamDiffers =
     [0x22, 0x20, 0x64A, 0x62E, 0x62A, 0x644, 0x641, 0x20, 0x641, 0x64A, 0x20, 0x627,
     0x644, 0x634, 0x639, 0x628, 0x629, 0x20, 0x28]"

definition msgThanFirst :: jsstring where
  "msgThanFirst =
     [0x29, 0x20, 0x639, 0x646, 0x20, 0x627, 0x644, 0x645, 0x644, 0x641, 0x20, 0x627,
     0x644, 0x623, 0x648, 0x644, 0x20, 0x28]"

definition msgLevelTail :: jsstring where
  "msgLevelTail =
     [0x29, 0x2E, 0x20, 0x64A, 0x62C, 0x628, 0x20, 0x62A, 0x62D, 0x645, 0x64A, 0x644,
     0x20, 0x645, 0x644, 0x641, 0x627, 0x62A, 0x20, 0x644, 0x646, 0x641, 0x633, 0x20,
     0x627, 0x644, 0x645, 0x633, 0x62A, 0x648, 0x649, 0x2E]"

definition msgStreamTail :: jsstring where
  "msgStreamTail =
     [0x29, 0x2E, 0x20, 0x64A, 0x62C, 0x628, 0x20, 0x62A, 0x62D, 0x645, 0x64A, 0x644,
     0x20, 0x645, 0x644, 0x641, 0x627, 0x62A, 0x20, 0x644, 0x646, 0x641, 0x633, 0x20,
     0x627, 0x644, 0x634, 0x639, 0x628, 0x629, 0x2E]"

fun errorMessage :: "error \<Rightarrow> jsstring" where
  "errorMessage EmptyInput = msgEmptyInput"
| "errorMessage InsufficientData = msgInsufficientData"
| "errorMessage UnsupportedHeader = msgUnsupportedHeader"
| "errorMessage ReadFailure = ascii ''Failed to read file''"
| "errorMessage (MetadataMismatch LevelField fname new first) =
     msgMismatchHead @ fname @ msgLevelDiffers @ new @ msgThanFirst @ first @ msgLevelTail"
| "errorMessage (MetadataMismatch StreamField fname new first) =
     msgMismatchHead @ fname @ msgStreamDiffers @ new @ msgThanFirst @ first @ msgStreamTail"
| "errorMessage SingleModeManyFiles = msgSingleModeManyFiles"
| "errorMessage NoValidData = msgNoValidData"

text \<open>
  \<open>allClassesLabel\<close> reads "all classes" and \<open>aggregatedMarker\<close> "(merged)".
\<close>

definition allClassesLabel :: jsstring where
  "allClassesLabel =
     [0x643, 0x644, 0x20, 0x627, 0x644, 0x623, 0x642, 0x633, 0x627, 0x645]"

definition aggregatedMarker :: jsstring where
  "aggregatedMarker =
     [0x28, 0x645, 0x62C, 0x645, 0x639, 0x29]"

datatype uploadMode = Single | Multi

text \<open>
  What the component shows and hands over: \<open>shownError\<close> is the message given to
  \<open>setError\<close> (\<open>None\<close> after \<open>setError(null)\<close>), and \<open>delivered\<close> the arguments of the one
  call of \<open>onDataLoaded\<close>, if it is made. The text of the success message is left out.
\<close>

record outcome =
  shownError :: "jsstring option"
  delivered :: "(student list \<times> cell list \<times> classMetadata) option"

text \<open>The variables of the multi-file loop.\<close>

record multiState =
  combinedStudents :: "student list"
  masterSubjects :: "cell list"
  masterMetadata :: "classMetadata option"
  processedCount :: nat

text \<open>
  The validation of one parsed file against the first one; the first file becomes the
  master.
\<close>

definition checkMaster :: "upload \<Rightarrow> parseResult \<Rightarrow> multiState \<Rightarrow> error + multiState" where
  "checkMaster f result st =
     (case masterMetadata st of
        Some mm \<Rightarrow>
          if level (resMetadata result) \<noteq> level mm
          then Inl (MetadataMismatch LevelField (fileName f)
                      (level (resMetadata result)) (level mm))
          else if stream (resMetadata result) \<noteq> stream mm
          then Inl (MetadataMismatch StreamField (fileName f)
                      (stream (resMetadata result)) (stream mm))
          else Inr st
      | None \<Rightarrow>
          Inr (st\<lparr>masterMetadata := Some (resMetadata result),
                  masterSubjects := resSubjects result\<rparr>))"

text \<open>
  \<open>result.students.map((s, i) => ({...s, id: `f${fileIndex}-s${i}`, sourceClass: ...}))\<close>;
  the class number falls back to a question mark when it is empty.
\<close>

definition studentsWithIds :: "nat \<Rightarrow> parseResult \<Rightarrow> student list" where
  "studentsWithIds fileIndex result =
     map (\<lambda>(s, i).
            s\<lparr>studentId := ascii ''f'' @ decimal fileIndex @ ascii ''-s'' @ decimal i,
              sourceClass :=
                Some (if classNumber (resMetadata result) \<noteq> []
                      then classNumber (resMetadata result) else ascii ''?'')\<rparr>)
       (zip (resStudents result) [0..<length (resStudents result)])"

text \<open>
  The loop \<open>for (const [fileIndex, file] of fileArray.entries())\<close>, from the file of
  index \<open>fileIndex\<close> on. A \<open>throw\<close> leaves the loop with \<open>Inl\<close>.
\<close>

fun multiLoop :: "platform \<Rightarrow> nat \<Rightarrow> upload list \<Rightarrow> multiState \<Rightarrow> error + multiState" where
  "multiLoop P fileIndex [] st = Inr st"
| "multiLoop P fileIndex (f # rest) st =
     (case parseExcelFile P f of
        Inl e \<Rightarrow> Inl e
      | Inr result \<Rightarrow>
          (case checkMaster f result st of
             Inl e \<Rightarrow> Inl e
           | Inr st1 \<Rightarrow>
               multiLoop P (Suc fileIndex) rest
                 (st1\<lparr>combinedStudents := combinedStudents st1 @ studentsWithIds fileIndex result,
                       processedCount := processedCount st1 + 1\<rparr>)))"

definition initialMultiState :: multiState where
  "initialMultiState =
     \<lparr>combinedStudents = [], masterSubjects = [], masterMetadata = None, processedCount = 0\<rparr>"

definition multiMode :: "platform \<Rightarrow> upload list \<Rightarrow> error + (student list \<times> cell list \<times> classMetadata)" where
  "multiMode P fileArray =
     (case multiLoop P 0 fileArray initialMultiState of
        Inl e \<Rightarrow> Inl e
      | Inr st \<Rightarrow>
          (case masterMetadata st of
             None \<Rightarrow> Inl NoValidData
           | Some mm \<Rightarrow>
               Inr (combinedStudents st, masterSubjects st,
                    mm\<lparr>classNumber := allClassesLabel,
                       className := level mm @ [0x20] @ stream mm @ [0x20] @ aggregatedMarker,
                       isAggregated := Some True\<rparr>)))"

definition singleMode :: "platform \<Rightarrow> upload list \<Rightarrow> error + (student list \<times> cell list \<times> classMetadata)" where
  "singleMode P fileArray =
     (case parseExcelFile P (fileArray ! 0) of
        Inl e \<Rightarrow> Inl e
      | Inr result \<Rightarrow>
          Inr (map (\<lambda>(s, i). s\<lparr>studentId := ascii ''student-'' @ decimal i\<rparr>)
                 (zip (resStudents result) [0..<length (resStudents result)]),
               resSubjects result, resMetadata result))"

text \<open>
  \<open>processFiles\<close>: the \<open>catch\<close> shows the message of whatever was thrown, and
  \<open>onDataLoaded\<close> is called only after the whole \<open>try\<close> block has run.
\<close>

definition processFiles :: "platform \<Rightarrow> uploadMode \<Rightarrow> upload list \<Rightarrow> outcome" where
  "processFiles P uploadMode fileArray =
     (if length fileArray = 0 then \<lparr>shownError = None, delivered = None\<rparr>
      else if uploadMode = Single \<and> length fileArray > 1
      then \<lparr>shownError = Some (errorMessage SingleModeManyFiles), delivered = None\<rparr>
      else
        (case (if uploadMode = Single then singleMode P fileArray else multiMode P fileArray) of
           Inl e \<Rightarrow> \<lparr>shownError = Some (errorMessage e), delivered = None\<rparr>
         | Inr d \<Rightarrow> \<lparr>shownError = None, delivered = Some d\<rparr>))"

section \<open>Auxiliary definitions for the proofs\<close>

text \<open>
  The invariant of the scan of \<open>calculateMode\<close> after the prefix \<open>p\<close> of the data, started
  with \<open>mode = d0\<close>: the table holds the count of every value seen, \<open>maxFreq\<close> bounds all
  counts, and the mode is the value whose count first reached \<open>maxFreq\<close>.
\<close>

definition modeInv :: "real \<Rightarrow> real list \<Rightarrow> modeState \<Rightarrow> bool" where
  "modeInv d0 p st \<longleftrightarrow>
     (\<forall>v. frequency st v = (if count_list p v = 0 then None else Some (count_list p v)))
   \<and> (\<forall>v. count_list p v \<le> maxFreq st)
   \<and> (p = [] \<longrightarrow> maxFreq st = 0 \<and> modeVal st = d0)
   \<and> (p \<noteq> [] \<longrightarrow> (\<exists>q r. p = q @ modeVal st # r \<and> count_list q (modeVal st) + 1 = maxFreq st
                          \<and> (\<forall>v. count_list q v < maxFreq st)))"

text \<open>
  The conditions under which the size of a correlation is stated. \<open>withinRange\<close>: the
  series is a JavaScript array (fewer than \<open>2^32\<close> elements) of numbers of magnitude at
  most \<open>2^480\<close>, so that no sum, square or product of \<open>calculateCorrelation\<close> overflows.
  \<open>deviationsNormal\<close>: every deviation from the mean that the code computes is 0 or has a
  magnitude of at least \<open>2^-480\<close>, so that no square or product of deviations underflows.
  \<open>roundingBound n\<close> is \<open>((1 + u) / (1 - u))^(n + 4)\<close> for the unit roundoff \<open>u\<close>, which
  is about \<open>1 + (2 n + 8) u\<close>.
\<close>

definition withinRange :: "real list \<Rightarrow> bool" where
  "withinRange x \<longleftrightarrow> length x < 2 ^ 32 \<and> (\<forall>v \<in> set x. \<bar>v\<bar> \<le> 2 ^ 480)"

definition deviationsNormal :: "real list \<Rightarrow> bool" where
  "deviationsNormal x \<longleftrightarrow>
     (\<forall>v \<in> set x. fsub v (calculateAverage x) = 0
                   \<or> 1 / 2 ^ 480 \<le> \<bar>fsub v (calculateAverage x)\<bar>)"

text \<open>
  A condition on the inputs alone that implies both: \<open>ordinaryNumbers\<close> is a JavaScript
  array of doubles each of which is 0 or has a magnitude between \<open>2^-340\<close> and \<open>2^480\<close>.
  \<open>onGrid k z\<close> says that \<open>z\<close> is an integer multiple of \<open>2^-k\<close>.
\<close>

definition ordinaryNumbers :: "real list \<Rightarrow> bool" where
  "ordinaryNumbers x \<longleftrightarrow>
     length x < 2 ^ 32
     \<and> (\<forall>v \<in> set x. rnd v = v \<and> (v = 0 \<or> 1 / 2 ^ 340 \<le> \<bar>v\<bar>) \<and> \<bar>v\<bar> \<le> 2 ^ 480)"

definition onGrid :: "nat \<Rightarrow> real \<Rightarrow> bool" where
  "onGrid k z \<longleftrightarrow> (\<exists>m :: int. z = of_int m / 2 ^ k)"

definition roundingBound :: "nat \<Rightarrow> real" where
  "roundingBound n = ((1 + unitRoundoff) / (1 - unitRoundoff)) ^ (n + 4)"

text \<open>
  The value of the compared field in a metadata record, and the pairs of a file index and
  a student index in the order of the merged list, given the number of students of every
  file from the file of index \<open>k\<close> on.
\<close>

fun fieldOf :: "mismatchField \<Rightarrow> classMetadata \<Rightarrow> jsstring" where
  "fieldOf LevelField md = level md"
| "fieldOf StreamField md = stream md"

fun idPairs :: "nat \<Rightarrow> nat list \<Rightarrow> (nat \<times> nat) list" where
  "idPairs k [] = []"
| "idPairs k (n # ns) = map (Pair k) [0..<n] @ idPairs (Suc k) ns"

definition mergedId :: "nat \<times> nat \<Rightarrow> jsstring" where
  "mergedId = (\<lambda>(i, j). ascii ''f'' @ decimal i @ ascii ''-s'' @ decimal j)"

section \<open>Example inputs\<close>

text \<open>
  The runtime of the examples. Their sheets are such that no number is ever printed and no
  text is ever parsed as a number; their texts are ASCII and Arabic, where \<open>toLowerCase\<close>
  changes the capital letters A to Z only.
\<close>

definition examplePlatform :: platform where
  "examplePlatform =
     \<lparr>numberToString = (\<lambda>n. []), parseFloat = (\<lambda>s. None),
      toLowerCase = map (\<lambda>c. if 0x41 \<le> c \<and> c \<le> 0x5A then c + 0x20 else c)\<rparr>"

text \<open>
  A header row with two subject columns and the column of the average, a row of a student
  whose grade area has two cells, and a row that holds a name only.
\<close>

definition exampleHeader :: row where
  "exampleHeader =
     [Text (ascii ''no''), Text keywordIsm, Text (ascii ''birth''), Text (ascii ''sex''),
      Text (ascii ''rep''), Text (ascii ''math''), Text (ascii ''physics''),
      Text (ascii ''average'')]"

definition exampleRowA :: row where
  "exampleRowA =
     [Num 1, Text (ascii ''Amina''), Absent, Text femaleLabel, Absent, Num 12, Num 9]"

definition exampleRowB :: row where
  "exampleRowB = [Absent, Text (ascii ''Bilal'')]"

text \<open>
  A header row whose second subject column has no name, and a row of a student below it.
\<close>

definition exampleHeaderGap :: row where
  "exampleHeaderGap =
     [Text (ascii ''no''), Text keywordIsm, Text (ascii ''birth''), Text (ascii ''sex''),
      Text (ascii ''rep''), Text (ascii ''math''), Absent, Text (ascii ''average'')]"

definition exampleRowGap :: row where
  "exampleRowGap =
     [Num 1, Text (ascii ''Amina''), Absent, Text femaleLabel, Absent, Num 12, Num 7]"

definition exampleSheetGap :: grid where
  "exampleSheetGap = [exampleHeaderGap, exampleRowGap, exampleRowB]"

text \<open>The student that the parser builds from that row.\<close>

definition exampleStudentGap :: student where
  "exampleStudentGap =
     \<lparr>studentId = ascii ''temp-0'', name = Text (ascii ''Amina''), gender = Text femaleLabel,
      grades = [ascii ''math'' \<mapsto> 12], semesterAverage = 7,
      originalRow = exampleRowGap, isRepeater = False, sourceClass = Some []\<rparr>"

text \<open>The double nearest to 0.1, which is a little above it.\<close>

definition tenth :: real where
  "tenth = 3602879701896397 / 2 ^ 55"

text \<open>A student with a given gender cell and semester average, for the examples.\<close>

definition exampleStudent :: "cell \<Rightarrow> real \<Rightarrow> student" where
  "exampleStudent g a =
     \<lparr>studentId = ascii ''student-0'', name = Text (ascii ''A''), gender = g,
      grades = Map.empty, semesterAverage = a, originalRow = [], isRepeater = False,
      sourceClass = None\<rparr>"

text \<open>
  The sheet of a class: four empty rows, the line of row 4 with the words of the semester,
  the school year, the level (here \<open>lv\<close> and "as") and the class number, then the header
  row and the two rows above. The files \<open>a.xlsx\<close> and \<open>b.xlsx\<close> hold such sheets.
\<close>

definition exampleSheet :: "jsstring \<Rightarrow> grid" where
  "exampleSheet lv =
     [[], [], [], [], [Text (ascii ''x x s1 s2 2024 '' @ lv @ ascii '' as 3'')],
      exampleHeader, exampleRowA, exampleRowB]"

definition exampleFileA :: "jsstring \<Rightarrow> upload" where
  "exampleFileA lv = \<lparr>fileName = ascii ''a.xlsx'', sheet = Some (exampleSheet lv)\<rparr>"

definition exampleFileB :: "jsstring \<Rightarrow> upload" where
  "exampleFileB lv = \<lparr>fileName = ascii ''b.xlsx'', sheet = Some (exampleSheet lv)\<rparr>"

text \<open>What the parser returns for such a sheet.\<close>

definition exampleMetadata :: "jsstring \<Rightarrow> classMetadata" where
  "exampleMetadata lv =
     \<lparr>schoolYear = ascii ''2024'', semester = ascii ''s1 s2'',
      className = lv @ ascii '' as 3'', level = lv @ ascii '' as'', stream = [],
      classNumber = ascii ''3'', directorate = [], schoolName = [], isAggregated = None\<rparr>"

definition exampleStudentA :: student where
  "exampleStudentA =
     \<lparr>studentId = ascii ''temp-0'', name = Text (ascii ''Amina''), gender = Text femaleLabel,
      grades = [ascii ''math'' \<mapsto> 12, ascii ''physics'' \<mapsto> 9], semesterAverage = 9,
      originalRow = exampleRowA, isRepeater = False, sourceClass = Some (ascii ''3'')\<rparr>"

definition exampleResult :: "jsstring \<Rightarrow> parseResult" where
  "exampleResult lv =
     \<lparr>resStudents = [exampleStudentA],
      resSubjects = [Text (ascii ''math''), Text (ascii ''physics'')],
      resMetadata = exampleMetadata lv\<rparr>"

section \<open>Properties of the arithmetic\<close>

lemma roundEven_of_int: "roundEven (of_int n) = n"
  by (simp add: roundEven_def)

lemma roundEven_eqI:
  assumes "of_int n - 1/2 < r" "r < of_int n + 1/2"
  shows "roundEven r = n"
proof (cases "of_int n \<le> r")
  case True
  then have "\<lfloor>r\<rfloor> = n" using assms by linarith
  then show ?thesis using assms by (simp add: roundEven_def)
next
  case False
  then have "\<lfloor>r\<rfloor> = n - 1" using assms by linarith
  then show ?thesis using assms False by (simp add: roundEven_def)
qed

lemma roundEven_half: "roundEven (of_int n + 1/2) = (if even n then n else n + 1)"
proof -
  have "\<lfloor>of_int n + 1/2 :: real\<rfloor> = n" by linarith
  then show ?thesis by (simp add: roundEven_def)
qed

lemma roundEven_error: "\<bar>of_int (roundEven r) - r\<bar> \<le> 1/2"
proof -
  have "r - of_int \<lfloor>r\<rfloor> < 1" "0 \<le> r - of_int \<lfloor>r\<rfloor>" by linarith+
  then show ?thesis
    by (auto simp: roundEven_def Let_def)
qed

lemma roundEven_abs_le:
  assumes "\<bar>r\<bar> \<le> of_int K"
  shows "\<bar>roundEven r\<bar> \<le> K"
proof -
  have up: "roundEven r \<le> K"
  proof (cases "\<lfloor>r\<rfloor> = K")
    case True
    then have "r = of_int K" using assms by linarith
    then show ?thesis by (simp add: roundEven_of_int)
  next
    case False
    have "\<lfloor>r\<rfloor> \<le> K" using assms by linarith
    with False have "\<lfloor>r\<rfloor> + 1 \<le> K" by simp
    then show ?thesis by (simp add: roundEven_def Let_def)
  qed
  have "- K \<le> \<lfloor>r\<rfloor>" using assms by linarith
  then have "- K \<le> roundEven r" by (simp add: roundEven_def Let_def)
  with up show ?thesis by simp
qed

lemma exponent_bounds:
  fixes x :: real
  assumes "x \<noteq> 0"
  shows "2 powr of_int \<lfloor>log 2 \<bar>x\<bar>\<rfloor> \<le> \<bar>x\<bar>" "\<bar>x\<bar> < 2 powr (of_int \<lfloor>log 2 \<bar>x\<bar>\<rfloor> + 1)"
proof -
  have pos: "0 < \<bar>x\<bar>" using assms by simp
  have "of_int \<lfloor>log 2 \<bar>x\<bar>\<rfloor> \<le> log 2 \<bar>x\<bar>" by simp
  then show "2 powr of_int \<lfloor>log 2 \<bar>x\<bar>\<rfloor> \<le> \<bar>x\<bar>"
    using pos le_log_iff [of 2 "\<bar>x\<bar>" "of_int \<lfloor>log 2 \<bar>x\<bar>\<rfloor>"] by simp
  have "log 2 \<bar>x\<bar> < of_int \<lfloor>log 2 \<bar>x\<bar>\<rfloor> + 1" by linarith
  then show "\<bar>x\<bar> < 2 powr (of_int \<lfloor>log 2 \<bar>x\<bar>\<rfloor> + 1)"
    using pos log_less_iff [of 2 "\<bar>x\<bar>" "of_int \<lfloor>log 2 \<bar>x\<bar>\<rfloor> + 1"] by simp
qed

lemma exponent_unique:
  fixes x :: real
  assumes "2 powr of_int e \<le> \<bar>x\<bar>" "\<bar>x\<bar> < 2 powr (of_int e + 1)"
  shows "\<lfloor>log 2 \<bar>x\<bar>\<rfloor> = e"
proof -
  have pos: "0 < \<bar>x\<bar>" using assms(1) by (smt (verit) powr_gt_zero)
  have "of_int e \<le> log 2 \<bar>x\<bar>" using assms(1) pos by (simp add: le_log_iff)
  moreover have "log 2 \<bar>x\<bar> < of_int e + 1" using assms(2) pos by (simp add: log_less_iff)
  ultimately show ?thesis by linarith
qed

lemma minNormal_powr: "minNormal = 2 powr (- 1022)"
  by (simp add: minNormal_def powr_minus inverse_eq_divide)

lemma minNormal_pos: "0 < minNormal"
  by (simp add: minNormal_def)

lemma unitRoundoff_bounds: "0 < unitRoundoff" "unitRoundoff < 1/2"
  by (simp_all add: unitRoundoff_def)

lemma rnd_zero: "rnd 0 = 0"
  by (simp add: rnd_def)

lemma exponent_normal:
  assumes "minNormal \<le> \<bar>x\<bar>"
  shows "- 1022 \<le> \<lfloor>log 2 \<bar>x\<bar>\<rfloor>"
proof -
  have pos: "0 < \<bar>x\<bar>" using assms minNormal_pos by linarith
  have "(2::real) powr (- 1022) \<le> \<bar>x\<bar>" using assms by (simp only: minNormal_powr)
  then have "- 1022 \<le> log 2 \<bar>x\<bar>" using pos by (simp add: le_log_iff)
  then show ?thesis by linarith
qed

lemma exponent_subnormal:
  assumes "x \<noteq> 0" "\<bar>x\<bar> < minNormal"
  shows "\<lfloor>log 2 \<bar>x\<bar>\<rfloor> < - 1022"
proof -
  have pos: "0 < \<bar>x\<bar>" using assms by simp
  have "\<bar>x\<bar> < (2::real) powr (- 1022)" using assms by (simp only: minNormal_powr)
  then have "log 2 \<bar>x\<bar> < - 1022" using pos by (simp add: log_less_iff)
  then show ?thesis by linarith
qed

lemma rnd_normal:
  assumes "minNormal \<le> \<bar>x\<bar>"
  shows "rnd x = 2 powr (of_int \<lfloor>log 2 \<bar>x\<bar>\<rfloor> - 52)
                  * of_int (roundEven (x / 2 powr (of_int \<lfloor>log 2 \<bar>x\<bar>\<rfloor> - 52)))"
proof -
  have nz: "x \<noteq> 0" using assms minNormal_pos by auto
  have "max \<lfloor>log 2 \<bar>x\<bar>\<rfloor> (- 1022) = \<lfloor>log 2 \<bar>x\<bar>\<rfloor>"
    using exponent_normal [OF assms] by simp
  then show ?thesis using nz by (simp add: rnd_def Let_def)
qed

lemma rnd_subnormal:
  assumes "\<bar>x\<bar> < minNormal"
  shows "rnd x = of_int (roundEven (x * 2 ^ 1074)) / 2 ^ 1074"
proof (cases "x = 0")
  case True
  then show ?thesis by (simp add: rnd_def roundEven_def)
next
  case False
  have m: "max \<lfloor>log 2 \<bar>x\<bar>\<rfloor> (- 1022) = - 1022"
    using exponent_subnormal [OF False assms] by simp
  have u: "(2::real) powr (of_int (- 1022) - 52) = 1 / 2 ^ 1074"
    by (simp add: powr_minus inverse_eq_divide)
  have "rnd x = (let e = max \<lfloor>log 2 \<bar>x\<bar>\<rfloor> (- 1022); u = 2 powr (of_int e - 52)
                 in u * of_int (roundEven (x / u)))"
    using False by (simp only: rnd_def if_False)
  then have "rnd x = 2 powr (of_int (- 1022) - 52)
                       * of_int (roundEven (x / 2 powr (of_int (- 1022) - 52)))"
    by (simp only: Let_def m)
  then have "rnd x = (1 / 2 ^ 1074) * of_int (roundEven (x / (1 / 2 ^ 1074)))"
    by (simp only: u)
  then show ?thesis by simp
qed

text \<open>
  The error of a rounding: at most the unit roundoff times the value when the value is 0
  or in the normal range, and at most half of \<open>2^-1074\<close> below it, where the result stays
  within the smallest normal double.
\<close>

lemma rnd_relative_error:
  assumes "x = 0 \<or> minNormal \<le> \<bar>x\<bar>"
  shows "\<bar>rnd x - x\<bar> \<le> unitRoundoff * \<bar>x\<bar>"
proof (cases "x = 0")
  case True
  then show ?thesis by (simp add: rnd_zero)
next
  case False
  with assms have n: "minNormal \<le> \<bar>x\<bar>" by simp
  define e where "e = \<lfloor>log 2 \<bar>x\<bar>\<rfloor>"
  define u :: real where "u = 2 powr (of_int e - 52)"
  have upos: "0 < u" by (simp add: u_def)
  have r: "rnd x = u * of_int (roundEven (x / u))"
    unfolding u_def e_def by (rule rnd_normal [OF n])
  have "rnd x - x = u * (of_int (roundEven (x / u)) - x / u)"
    using upos by (simp add: r algebra_simps)
  then have "\<bar>rnd x - x\<bar> = u * \<bar>of_int (roundEven (x / u)) - x / u\<bar>"
    using upos by (simp add: abs_mult)
  also have "\<dots> \<le> u * (1/2)"
    using upos roundEven_error [of "x / u"] by (intro mult_left_mono) simp_all
  also have "u * (1/2) = unitRoundoff * 2 powr of_int e"
    by (simp add: u_def powr_diff unitRoundoff_def)
  also have "\<dots> \<le> unitRoundoff * \<bar>x\<bar>"
    using exponent_bounds(1) [OF False] unitRoundoff_bounds(1)
    by (intro mult_left_mono) (simp_all add: e_def)
  finally show ?thesis .
qed

lemma rnd_subnormal_bound:
  assumes "\<bar>x\<bar> < minNormal"
  shows "\<bar>rnd x\<bar> \<le> minNormal"
proof -
  have "\<bar>x * 2 ^ 1074\<bar> = \<bar>x\<bar> * 2 ^ 1074" by (simp add: abs_mult)
  also have "\<dots> \<le> minNormal * 2 ^ 1074" using assms by simp
  also have "\<dots> = of_int (2 ^ 52)" by (simp add: minNormal_def)
  finally have "\<bar>roundEven (x * 2 ^ 1074)\<bar> \<le> 2 ^ 52" by (rule roundEven_abs_le)
  then have "\<bar>real_of_int (roundEven (x * 2 ^ 1074))\<bar> \<le> 2 ^ 52"
    by (metis of_int_abs of_int_le_iff of_int_numeral of_int_power)
  then have "\<bar>real_of_int (roundEven (x * 2 ^ 1074))\<bar> / 2 ^ 1074 \<le> 2 ^ 52 / 2 ^ 1074"
    by (intro divide_right_mono) simp_all
  then show ?thesis
    by (simp add: rnd_subnormal [OF assms] minNormal_def)
qed

lemma rnd_upper:
  "\<bar>rnd x\<bar> \<le> max ((1 + unitRoundoff) * \<bar>x\<bar>) minNormal"
proof (cases "\<bar>x\<bar> < minNormal")
  case True
  then show ?thesis using rnd_subnormal_bound [OF True] by simp
next
  case False
  then have "\<bar>rnd x - x\<bar> \<le> unitRoundoff * \<bar>x\<bar>" by (intro rnd_relative_error) simp
  then have "\<bar>rnd x\<bar> \<le> (1 + unitRoundoff) * \<bar>x\<bar>" by (simp add: algebra_simps)
  then show ?thesis by simp
qed

lemma rnd_upper_normal:
  assumes "x = 0 \<or> minNormal \<le> \<bar>x\<bar>"
  shows "\<bar>rnd x\<bar> \<le> (1 + unitRoundoff) * \<bar>x\<bar>"
  using rnd_relative_error [OF assms] by (simp add: algebra_simps)

lemma rnd_lower_normal:
  assumes "x = 0 \<or> minNormal \<le> x"
  shows "(1 - unitRoundoff) * x \<le> rnd x"
proof -
  have x0: "0 \<le> x" using assms minNormal_pos by auto
  then have "x = 0 \<or> minNormal \<le> \<bar>x\<bar>" using assms by auto
  from rnd_relative_error [OF this] x0 show ?thesis by (simp add: algebra_simps)
qed

text \<open>How a rounding is evaluated: by its neighbours, at a tie, and on a double.\<close>

lemma rnd_evalI:
  fixes x u :: real
  assumes e: "2 powr of_int e \<le> \<bar>x\<bar>" "\<bar>x\<bar> < 2 powr (of_int e + 1)"
    and u: "u = 2 powr (of_int e - 52)"
    and n: "(of_int n - 1/2) * u < x" "x < (of_int n + 1/2) * u"
    and r: "- 1022 \<le> e"
  shows "rnd x = u * of_int n"
proof -
  have nz: "x \<noteq> 0" using e(1) by (smt (verit) powr_gt_zero abs_zero)
  have ex: "\<lfloor>log 2 \<bar>x\<bar>\<rfloor> = e" by (rule exponent_unique [OF e])
  have upos: "0 < u" by (simp add: u)
  have "roundEven (x / u) = n"
    using n upos by (intro roundEven_eqI) (simp_all add: pos_less_divide_eq pos_divide_less_eq)
  then show ?thesis
    using nz r by (simp add: rnd_def Let_def ex u max_def)
qed

lemma rnd_tieI:
  fixes x u :: real
  assumes e: "2 powr of_int e \<le> \<bar>x\<bar>" "\<bar>x\<bar> < 2 powr (of_int e + 1)"
    and u: "u = 2 powr (of_int e - 52)"
    and n: "x = (of_int n + 1/2) * u"
    and r: "- 1022 \<le> e"
  shows "rnd x = u * of_int (if even n then n else n + 1)"
proof -
  have nz: "x \<noteq> 0" using e(1) by (smt (verit) powr_gt_zero abs_zero)
  have ex: "\<lfloor>log 2 \<bar>x\<bar>\<rfloor> = e" by (rule exponent_unique [OF e])
  have upos: "0 < u" by (simp add: u)
  have "x / u = of_int n + 1/2" using n upos by simp
  then have "roundEven (x / u) = (if even n then n else n + 1)"
    by (simp only: roundEven_half)
  then show ?thesis
    using nz r by (simp add: rnd_def Let_def ex u max_def)
qed

lemma rnd_exact:
  fixes x :: real
  assumes x: "x * 2 ^ j = of_int m" and m: "\<bar>m\<bar> < 2 ^ 53"
    and r: "x = 0 \<or> minNormal \<le> \<bar>x\<bar>"
  shows "rnd x = x"
proof (cases "x = 0")
  case True
  then show ?thesis by (simp add: rnd_def)
next
  case False
  with r have nrm: "minNormal \<le> \<bar>x\<bar>" by simp
  define e where "e = \<lfloor>log 2 \<bar>x\<bar>\<rfloor>"
  define u :: real where "u = 2 powr (of_int e - 52)"
  have upos: "0 < u" by (simp add: u_def)
  have xm: "\<bar>x\<bar> * 2 ^ j = of_int \<bar>m\<bar>"
    using x by (metis abs_mult abs_numeral abs_power2 of_int_abs power_abs)
  have "2 powr of_int e \<le> \<bar>x\<bar>" unfolding e_def by (rule exponent_bounds [OF False])
  then have "2 powr of_int e * 2 ^ j \<le> \<bar>x\<bar> * 2 ^ j" by simp
  also have "\<dots> < 2 ^ 53" using xm m by simp
  finally have lt: "(2::real) powr (of_int e + of_nat j) < 2 ^ 53"
    by (simp add: powr_add powr_realpow)
  have "of_int e + of_nat j < (53::real)"
  proof (rule ccontr)
    assume "\<not> of_int e + of_nat j < (53::real)"
    then have "(2::real) powr of_nat 53 \<le> 2 powr (of_int e + of_nat j)"
      by (intro powr_mono) simp_all
    then have "(2::real) ^ 53 \<le> 2 powr (of_int e + of_nat j)"
      by (simp only: powr_realpow zero_less_numeral)
    with lt show False by linarith
  qed
  then have le: "e + int j \<le> 52" by linarith
  define k where "k = nat (52 - e - int j)"
  have k: "int k = 52 - e - int j" using le by (simp add: k_def)
  have "x / u = x * 2 powr (52 - of_int e)"
    by (simp add: u_def powr_diff field_simps)
  also have "52 - of_int e = of_nat j + real k"
    using k by linarith
  also have "x * 2 powr (of_nat j + real k) = (x * 2 ^ j) * 2 ^ k"
    by (simp add: powr_add powr_realpow)
  also have "\<dots> = of_int (m * 2 ^ k)" using x by simp
  finally have xu: "x / u = of_int (m * 2 ^ k)" .
  then have "roundEven (x / u) = m * 2 ^ k" by (simp only: roundEven_of_int)
  then have "rnd x = u * (x / u)"
    using xu rnd_normal [OF nrm] by (simp add: e_def u_def)
  then show ?thesis using upos by simp
qed

text \<open>A rounding never changes the sign, and a result that is not 0 is at least \<open>2^-1074\<close>.\<close>

lemma roundEven_ge_floor: "\<lfloor>r\<rfloor> \<le> roundEven r"
  by (simp add: roundEven_def Let_def)

lemma roundEven_zero_bound:
  assumes "roundEven r = 0"
  shows "\<bar>r\<bar> < 1"
proof -
  have "r - of_int \<lfloor>r\<rfloor> < 1" "0 \<le> r - of_int \<lfloor>r\<rfloor>" by linarith+
  then show ?thesis
    using assms by (auto simp: roundEven_def Let_def split: if_splits) linarith+
qed

lemma rnd_binade_lower:
  assumes "minNormal \<le> x"
  shows "2 powr of_int \<lfloor>log 2 x\<rfloor> \<le> rnd x"
proof -
  have pos: "0 < x" using assms minNormal_pos by linarith
  then have ax: "\<bar>x\<bar> = x" by simp
  define e where "e = \<lfloor>log 2 x\<rfloor>"
  define u :: real where "u = 2 powr (of_int e - 52)"
  have upos: "0 < u" by (simp add: u_def)
  have r: "rnd x = u * of_int (roundEven (x / u))"
    using rnd_normal [of x] assms by (simp add: ax u_def e_def)
  have "2 powr of_int e \<le> x" using exponent_bounds(1) [of x] pos by (simp add: e_def ax)
  then have "2 powr of_int e / u \<le> x / u" using upos by (simp add: divide_right_mono)
  moreover have "2 powr of_int e / u = 2 ^ 52"
    by (simp add: u_def powr_diff)
  ultimately have "of_int (2 ^ 52) \<le> x / u" by simp
  then have "2 ^ 52 \<le> \<lfloor>x / u\<rfloor>" by (simp only: le_floor_iff)
  with roundEven_ge_floor [of "x / u"] have "2 ^ 52 \<le> roundEven (x / u)" by linarith
  then have "(2 ^ 52 :: real) \<le> of_int (roundEven (x / u))"
    by (metis of_int_le_iff of_int_numeral of_int_power)
  then have "u * 2 ^ 52 \<le> u * of_int (roundEven (x / u))"
    using upos by (intro mult_left_mono) simp_all
  moreover have "u * 2 ^ 52 = 2 powr of_int e" by (simp add: u_def powr_diff)
  ultimately show ?thesis by (simp add: r e_def)
qed

lemma rnd_nonzero_magnitude:
  assumes "rnd z \<noteq> 0"
  shows "1 / 2 ^ 1074 \<le> \<bar>rnd z\<bar>"
proof (cases "\<bar>z\<bar> < minNormal")
  case True
  from assms have "roundEven (z * 2 ^ 1074) \<noteq> 0" by (simp add: rnd_subnormal [OF True])
  then have "1 \<le> \<bar>roundEven (z * 2 ^ 1074)\<bar>" by simp
  then have "1 \<le> \<bar>real_of_int (roundEven (z * 2 ^ 1074))\<bar>"
    by (metis of_int_1_le_iff of_int_abs)
  then have "1 / 2 ^ 1074 \<le> \<bar>real_of_int (roundEven (z * 2 ^ 1074))\<bar> / 2 ^ 1074"
    by (intro divide_right_mono) simp_all
  then show ?thesis by (simp add: rnd_subnormal [OF True])
next
  case False
  then have n: "minNormal \<le> \<bar>z\<bar>" by simp
  then have "\<bar>rnd z - z\<bar> \<le> unitRoundoff * \<bar>z\<bar>" by (intro rnd_relative_error) simp
  moreover have "unitRoundoff * \<bar>z\<bar> \<le> (1/2) * \<bar>z\<bar>"
    using unitRoundoff_bounds by (intro mult_right_mono) simp_all
  ultimately have "(1/2) * \<bar>z\<bar> \<le> \<bar>rnd z\<bar>" by linarith
  moreover have "1 / 2 ^ 1074 \<le> (1/2) * minNormal" by (simp add: minNormal_def)
  ultimately show ?thesis using n by linarith
qed

lemma rnd_nonneg:
  assumes "0 \<le> x"
  shows "0 \<le> rnd x"
proof (cases "x = 0")
  case True
  then show ?thesis by (simp add: rnd_zero)
next
  case False
  define u :: real where "u = 2 powr (of_int (max \<lfloor>log 2 \<bar>x\<bar>\<rfloor> (- 1022)) - 52)"
  have upos: "0 < u" by (simp add: u_def)
  have r: "rnd x = u * of_int (roundEven (x / u))"
    using False by (simp add: rnd_def Let_def u_def)
  have "0 \<le> x / u" using assms upos by simp
  then have "0 \<le> \<lfloor>x / u\<rfloor>" by simp
  with roundEven_ge_floor [of "x / u"] have "0 \<le> roundEven (x / u)" by linarith
  then show ?thesis using upos by (simp add: r)
qed

lemmas fops = fadd_def fsub_def fmul_def fdiv_def fsqrt_def fsquare_def

text \<open>The small values that the examples below compute with are doubles.\<close>

lemma rnd_small_values:
  "rnd 1 = 1" "rnd 2 = 2" "rnd 3 = 3" "rnd 5 = 5" "rnd 10 = 10"
  "rnd (3/2) = 3/2" "rnd (- (3/2)) = - (3/2)" "rnd (9/4) = 9/4" "rnd (9/2) = 9/2"
  "rnd (1/2) = 1/2" "rnd (- (1/2)) = - (1/2)" "rnd (1/4) = 1/4" "rnd (- (1/4)) = - (1/4)"
proof -
  show "rnd 1 = 1" by (rule rnd_exact [where j = 0 and m = 1]) (simp_all add: minNormal_def)
  show "rnd 2 = 2" by (rule rnd_exact [where j = 0 and m = 2]) (simp_all add: minNormal_def)
  show "rnd 3 = 3" by (rule rnd_exact [where j = 0 and m = 3]) (simp_all add: minNormal_def)
  show "rnd 5 = 5" by (rule rnd_exact [where j = 0 and m = 5]) (simp_all add: minNormal_def)
  show "rnd 10 = 10" by (rule rnd_exact [where j = 0 and m = 10]) (simp_all add: minNormal_def)
  show "rnd (3/2) = 3/2" by (rule rnd_exact [where j = 1 and m = 3]) (simp_all add: minNormal_def)
  show "rnd (- (3/2)) = - (3/2)" by (rule rnd_exact [where j = 1 and m = "-3"]) (simp_all add: minNormal_def)
  show "rnd (9/4) = 9/4" by (rule rnd_exact [where j = 2 and m = 9]) (simp_all add: minNormal_def)
  show "rnd (9/2) = 9/2" by (rule rnd_exact [where j = 1 and m = 9]) (simp_all add: minNormal_def)
  show "rnd (1/2) = 1/2" by (rule rnd_exact [where j = 1 and m = 1]) (simp_all add: minNormal_def)
  show "rnd (- (1/2)) = - (1/2)" by (rule rnd_exact [where j = 1 and m = "-1"]) (simp_all add: minNormal_def)
  show "rnd (1/4) = 1/4" by (rule rnd_exact [where j = 2 and m = 1]) (simp_all add: minNormal_def)
  show "rnd (- (1/4)) = - (1/4)" by (rule rnd_exact [where j = 2 and m = "-1"]) (simp_all add: minNormal_def)
qed

section \<open>Properties of the statistics engine\<close>

subsection \<open>The scan of calculateMode\<close>

lemma modeInv_init: "modeInv d0 [] \<lparr>frequency = Map.empty, maxFreq = 0, modeVal = d0\<rparr>"
  by (simp add: modeInv_def)

lemma modeInv_step:
  assumes "modeInv d0 p st"
  shows "modeInv d0 (p @ [val]) (modeStep st val)"
proof -
  from assms have fr: "\<And>v. frequency st v = (if count_list p v = 0 then None else Some (count_list p v))"
    and le: "\<And>v. count_list p v \<le> maxFreq st"
    and em: "p = [] \<Longrightarrow> maxFreq st = 0"
    and ne: "p \<noteq> [] \<Longrightarrow> \<exists>q r. p = q @ modeVal st # r \<and> count_list q (modeVal st) + 1 = maxFreq st
                          \<and> (\<forall>v. count_list q v < maxFreq st)"
    by (simp_all add: modeInv_def)
  have f: "(case frequency st val of None \<Rightarrow> 0 | Some c \<Rightarrow> c) = count_list p val"
    by (simp add: fr)
  show ?thesis
  proof (cases "count_list p val + 1 > maxFreq st")
    case True
    then have st: "modeStep st val = st\<lparr>frequency := (frequency st)(val \<mapsto> count_list p val + 1),
                       maxFreq := count_list p val + 1, modeVal := val\<rparr>"
      by (simp add: modeStep_def f Let_def)
    have "\<forall>v. count_list p v < count_list p val + 1"
      using le True by (meson le_less_trans)
    then have "\<exists>q r. p @ [val] = q @ val # r \<and> count_list q val + 1 = count_list p val + 1
                 \<and> (\<forall>v. count_list q v < count_list p val + 1)"
      by (intro exI [of _ p] exI [of _ "[]"]) simp
    moreover have "count_list (p @ [val]) v \<le> count_list p val + 1" for v
      using le [of v] True by (cases "v = val") simp_all
    then have "\<forall>v. count_list (p @ [val]) v \<le> count_list p val + 1" by blast
    ultimately show ?thesis
      by (simp add: modeInv_def st fr)
  next
    case False
    then have st: "modeStep st val = st\<lparr>frequency := (frequency st)(val \<mapsto> count_list p val + 1)\<rparr>"
      by (simp add: modeStep_def f Let_def)
    from False em have "p \<noteq> []" by auto
    from ne [OF this] obtain q r where q: "p = q @ modeVal st # r"
      "count_list q (modeVal st) + 1 = maxFreq st" "\<forall>v. count_list q v < maxFreq st"
      by blast
    have "p @ [val] = q @ modeVal st # (r @ [val])" using q(1) by simp
    then have "\<exists>q r. p @ [val] = q @ modeVal st # r \<and> count_list q (modeVal st) + 1 = maxFreq st
                 \<and> (\<forall>v. count_list q v < maxFreq st)"
      using q(2,3) by blast
    moreover have "count_list (p @ [val]) v \<le> maxFreq st" for v
      using le [of v] False by (cases "v = val") simp_all
    then have "\<forall>v. count_list (p @ [val]) v \<le> maxFreq st" by blast
    ultimately show ?thesis
      by (simp add: modeInv_def st fr)
  qed
qed

lemma modeInv_foldl:
  "modeInv d0 p (foldl modeStep \<lparr>frequency = Map.empty, maxFreq = 0, modeVal = d0\<rparr> p)"
  by (induction p rule: rev_induct) (simp_all add: modeInv_init modeInv_step)

subsection \<open>The mode\<close>

text \<open>
  Claim C7. On a non-empty input \<open>calculateMode\<close> returns a value of the highest
  frequency, and among those the first to reach that frequency in the scan from the left:
  the input splits into a prefix \<open>p\<close>, the mode and a rest, where the mode reaches the
  highest frequency at the end of \<open>p\<close> followed by it, and no value has that frequency within \<open>p\<close>.
  In particular the mode of 1, 2, 2, 3, 3, 3 is 3 and the mode of 1, 1, 2, 2 is 1.
\<close>

theorem calculateMode_first_to_reach_max:
  "(data \<noteq> [] \<longrightarrow>
      (\<exists>p s. data = p @ calculateMode data # s
         \<and> count_list (p @ [calculateMode data]) (calculateMode data)
             = count_list data (calculateMode data)
         \<and> (\<forall>v. count_list p v < count_list data (calculateMode data))
         \<and> (\<forall>v. count_list data v \<le> count_list data (calculateMode data))))
   \<and> calculateMode [1, 2, 2, 3, 3, 3] = 3
   \<and> calculateMode [1, 1, 2, 2] = 1"
proof -
  have ex: "calculateMode [1, 2, 2, 3, 3, 3] = 3" "calculateMode [1, 1, 2, 2] = 1"
    by (simp_all add: calculateMode_def modeStep_def Let_def)
  have "\<exists>p s. data = p @ calculateMode data # s
         \<and> count_list (p @ [calculateMode data]) (calculateMode data)
             = count_list data (calculateMode data)
         \<and> (\<forall>v. count_list p v < count_list data (calculateMode data))
         \<and> (\<forall>v. count_list data v \<le> count_list data (calculateMode data))"
    if ne: "data \<noteq> []"
  proof -
    from ne obtain d0 ds where d: "data = d0 # ds" by (cases data) auto
    define st where "st = foldl modeStep \<lparr>frequency = Map.empty, maxFreq = 0, modeVal = d0\<rparr> data"
    have m: "calculateMode data = modeVal st"
      by (simp add: calculateMode_def d st_def)
    have inv: "modeInv d0 data st"
      unfolding st_def by (rule modeInv_foldl)
    then have le: "\<And>v. count_list data v \<le> maxFreq st"
      by (simp add: modeInv_def)
    from inv ne obtain q r where q: "data = q @ modeVal st # r"
        "count_list q (modeVal st) + 1 = maxFreq st" "\<forall>v. count_list q v < maxFreq st"
      unfolding modeInv_def by blast
    have "count_list data (modeVal st) = maxFreq st"
    proof (rule antisym)
      show "count_list data (modeVal st) \<le> maxFreq st" by (rule le)
      have "count_list data (modeVal st) = count_list q (modeVal st) + 1 + count_list r (modeVal st)"
        by (subst q(1)) simp
      then show "maxFreq st \<le> count_list data (modeVal st)" using q(2) by simp
    qed
    then show ?thesis
      unfolding m using q le by (intro exI [of _ q] exI [of _ r]) simp
  qed
  with ex show ?thesis by blast
qed

theorem calculateMode_first_to_reach_max_witness:
  "[2, 7, 7, 2 :: real] \<noteq> []
   \<and> (\<exists>p s. [2, 7, 7, 2] = p @ calculateMode [2, 7, 7, 2] # s
         \<and> count_list (p @ [calculateMode [2, 7, 7, 2]]) (calculateMode [2, 7, 7, 2])
             = count_list [2, 7, 7, 2] (calculateMode [2, 7, 7, 2]))
   \<and> calculateMode [2, 7, 7, 2] = 7"
proof -
  have "calculateMode [2, 7, 7, 2] = 7"
    by (simp add: calculateMode_def modeStep_def Let_def)
  moreover have "[2, 7, 7, 2 :: real] \<noteq> []" by simp
  ultimately show ?thesis
    using calculateMode_first_to_reach_max [of "[2, 7, 7, 2]"] by auto
qed

subsection \<open>Degenerate inputs\<close>

text \<open>
  The guard of \<open>calculateCorrelation\<close> on its denominators: a denominator is 0 when the sum
  of the squared deviations that the code computes is 0.
\<close>

lemma correlation_zero_sum_left:
  assumes "foldl (\<lambda>sum xi. fadd sum (fsquare (fsub xi (calculateAverage x)))) 0 x = 0"
  shows "calculateCorrelation x y = 0"
  using assms by (simp add: calculateCorrelation_def Let_def fsqrt_def rnd_zero)

lemma correlation_zero_sum_right:
  assumes "foldl (\<lambda>sum yi. fadd sum (fsquare (fsub yi (calculateAverage y)))) 0 y = 0"
  shows "calculateCorrelation x y = 0"
  using assms by (simp add: calculateCorrelation_def Let_def fsqrt_def rnd_zero)

text \<open>
  A series all of whose elements equal the mean that the code computes for it has the
  deviations 0, so that the sum of their squares is 0.
\<close>

lemma squares_sum_constant:
  assumes "\<forall>v \<in> set xs. v = m"
  shows "foldl (\<lambda>sum xi. fadd sum (fsquare (fsub xi m))) 0 xs = 0"
  using assms by (induction xs rule: rev_induct) (simp_all add: fops rnd_zero)

lemma correlation_constant_left:
  assumes "\<forall>v \<in> set x. v = calculateAverage x"
  shows "calculateCorrelation x y = 0"
  using squares_sum_constant [OF assms]
  by (simp add: calculateCorrelation_def Let_def fsqrt_def rnd_zero)

lemma correlation_constant_right:
  assumes "\<forall>v \<in> set y. v = calculateAverage y"
  shows "calculateCorrelation x y = 0"
  using squares_sum_constant [OF assms]
  by (simp add: calculateCorrelation_def Let_def fsqrt_def rnd_zero)

text \<open>
  Claim C5, as amended. No function of the statistics engine has a \<open>throw\<close> or a failing
  read, so each is a total function into the numbers, and on a degenerate input it returns
  0: the average, the pass percentage, the standard deviation and the mode of the empty
  list; the coefficient of variation for the average 0; the correlation of empty series
  and of series of different lengths; and the correlation of two series for one of which
  the sum of the squared deviations that the code computes is 0, as it is for a series
  that is constant and equal to the mean that the code computes for it. The magnitude of
  that series is bounded (\<open>withinRange\<close>) because a sum that overflows is outside the model.
\<close>

theorem statistics_degenerate_inputs:
  "calculateAverage [] = 0
   \<and> calculatePassPercentage [] threshold = 0
   \<and> calculateStandardDeviation [] = 0
   \<and> calculateMode [] = 0
   \<and> calculateCV 0 sd = 0
   \<and> calculateCorrelation [] y = 0
   \<and> calculateCorrelation x [] = 0
   \<and> (length x \<noteq> length y \<longrightarrow> calculateCorrelation x y = 0)
   \<and> ((withinRange x
          \<and> foldl (\<lambda>sum xi. fadd sum (fsquare (fsub xi (calculateAverage x)))) 0 x = 0)
        \<or> (withinRange y
          \<and> foldl (\<lambda>sum yi. fadd sum (fsquare (fsub yi (calculateAverage y)))) 0 y = 0)
        \<longrightarrow> calculateCorrelation x y = 0)
   \<and> ((withinRange x \<and> (\<forall>v \<in> set x. v = calculateAverage x))
        \<or> (withinRange y \<and> (\<forall>v \<in> set y. v = calculateAverage y))
        \<longrightarrow> calculateCorrelation x y = 0)"
proof -
  have "length x \<noteq> length y \<longrightarrow> calculateCorrelation x y = 0"
    by (simp add: calculateCorrelation_def)
  moreover have "(withinRange x
          \<and> foldl (\<lambda>sum xi. fadd sum (fsquare (fsub xi (calculateAverage x)))) 0 x = 0)
        \<or> (withinRange y
          \<and> foldl (\<lambda>sum yi. fadd sum (fsquare (fsub yi (calculateAverage y)))) 0 y = 0)
        \<longrightarrow> calculateCorrelation x y = 0"
    using correlation_zero_sum_left correlation_zero_sum_right by blast
  moreover have "(withinRange x \<and> (\<forall>v \<in> set x. v = calculateAverage x))
        \<or> (withinRange y \<and> (\<forall>v \<in> set y. v = calculateAverage y))
        \<longrightarrow> calculateCorrelation x y = 0"
    using correlation_constant_left correlation_constant_right by blast
  moreover have "calculateCorrelation [] y = 0" "calculateCorrelation x [] = 0"
    by (simp_all add: calculateCorrelation_def)
  ultimately show ?thesis
    by (simp add: calculateAverage_def calculatePassPercentage_def
        calculateStandardDeviation_def calculateMode_def calculateCV_def)
qed

lemma average_constant_pair: "calculateAverage [5, 5] = 5"
  by (simp add: calculateAverage_def fops rnd_small_values rnd_zero)

lemma withinRange_small: "withinRange [5, 5]" "withinRange [0, 3]" "withinRange [3, 0]"
  by (simp_all add: withinRange_def)

theorem statistics_degenerate_inputs_witness:
  "calculateCorrelation [1] [1, 2] = 0
   \<and> withinRange [5, 5] \<and> calculateAverage [5, 5] = 5 \<and> calculateCorrelation [5, 5] [1, 2] = 0"
  using statistics_degenerate_inputs [of 10 0 "[1, 2]" "[1]"]
    statistics_degenerate_inputs [of 10 0 "[1, 2]" "[5, 5]"] average_constant_pair
    withinRange_small(1)
  by simp

text \<open>
  The series 0.1, 0.1, 0.1. The sum 0.2 + 0.1 lies half way between two doubles and
  rounds to 0.30000000000000004, a third of which rounds to 0.10000000000000002: the mean
  is the double after 0.1, and every deviation is \<open>-2^-56\<close>. The squares, their sums and
  the products are exact.
\<close>

lemma tenth_sum: "fadd 0 tenth = tenth" "fadd tenth tenth = 3602879701896397 / 2 ^ 54"
proof -
  have "rnd tenth = tenth"
    unfolding tenth_def
    by (rule rnd_exact [where j = 55 and m = 3602879701896397]) (simp_all add: minNormal_def)
  then show "fadd 0 tenth = tenth" by (simp add: fadd_def)
  have "rnd (3602879701896397 / 2 ^ 54) = 3602879701896397 / 2 ^ 54"
    by (rule rnd_exact [where j = 54 and m = 3602879701896397]) (simp_all add: minNormal_def)
  then show "fadd tenth tenth = 3602879701896397 / 2 ^ 54" by (simp add: fadd_def tenth_def)
qed

lemma tenth_sum_tie: "fadd (3602879701896397 / 2 ^ 54) tenth = 1351079888211149 / 2 ^ 52"
proof -
  have "rnd (10808639105689191 / 2 ^ 55)
      = (1 / 2 ^ 54) * of_int (if even (5404319552844595::int) then 5404319552844595 else 5404319552844595 + 1)"
    by (rule rnd_tieI [where e = "-2"]) (simp_all add: powr_minus)
  then show ?thesis by (simp add: fadd_def tenth_def)
qed

lemma tenth_mean: "fdiv (1351079888211149 / 2 ^ 52) 3 = 7205759403792795 / 2 ^ 56"
proof -
  have "rnd ((1351079888211149 / 2 ^ 52) / 3) = (1 / 2 ^ 56) * of_int 7205759403792795"
    by (rule rnd_evalI [where e = "-4"]) (simp_all add: powr_minus)
  then show ?thesis unfolding fdiv_def by simp
qed

lemma tenth_average: "calculateAverage [tenth, tenth, tenth] = 7205759403792795 / 2 ^ 56"
proof -
  have "calculateAverage [tenth, tenth, tenth] = fdiv (fadd (fadd (fadd 0 tenth) tenth) tenth) 3"
    by (simp add: calculateAverage_def)
  then show ?thesis by (simp only: tenth_sum tenth_sum_tie tenth_mean)
qed

lemma tenth_deviation: "fsub tenth (7205759403792795 / 2 ^ 56) = - (1 / 2 ^ 56)"
proof -
  have "rnd (- (1 / 2 ^ 56)) = - (1 / 2 ^ 56)"
    by (rule rnd_exact [where j = 56 and m = "-1"]) (simp_all add: minNormal_def)
  then show ?thesis by (simp add: fsub_def tenth_def)
qed

lemma tenth_squares:
  "fsquare (- (1 / 2 ^ 56)) = 1 / 2 ^ 112" "fmul (- (1 / 2 ^ 56)) (- (1 / 2 ^ 56)) = 1 / 2 ^ 112"
  "fadd 0 (1 / 2 ^ 112) = 1 / 2 ^ 112" "fadd (1 / 2 ^ 112) (1 / 2 ^ 112) = 1 / 2 ^ 111"
  "fadd (1 / 2 ^ 111) (1 / 2 ^ 112) = 3 / 2 ^ 112"
proof -
  have a: "rnd (1 / 2 ^ 112) = 1 / 2 ^ 112"
    by (rule rnd_exact [where j = 112 and m = 1]) (simp_all add: minNormal_def)
  have b: "rnd (1 / 2 ^ 111) = 1 / 2 ^ 111"
    by (rule rnd_exact [where j = 111 and m = 1]) (simp_all add: minNormal_def)
  have c: "rnd (3 / 2 ^ 112) = 3 / 2 ^ 112"
    by (rule rnd_exact [where j = 112 and m = 3]) (simp_all add: minNormal_def)
  show "fsquare (- (1 / 2 ^ 56)) = 1 / 2 ^ 112" using a by (simp add: fsquare_def)
  show "fmul (- (1 / 2 ^ 56)) (- (1 / 2 ^ 56)) = 1 / 2 ^ 112" using a by (simp add: fmul_def)
  show "fadd 0 (1 / 2 ^ 112) = 1 / 2 ^ 112" using a by (simp add: fadd_def)
  show "fadd (1 / 2 ^ 112) (1 / 2 ^ 112) = 1 / 2 ^ 111" using b by (simp add: fadd_def)
  show "fadd (1 / 2 ^ 111) (1 / 2 ^ 112) = 3 / 2 ^ 112" using c by (simp add: fadd_def)
qed

lemma tenth_root: "fsqrt (3 / 2 ^ 112) = 7800463371553962 / 2 ^ 108"
proof -
  have pos: "0 \<le> sqrt (3 / 2 ^ 112 :: real)" by simp
  have lo: "1 / 2 ^ 56 \<le> sqrt (3 / 2 ^ 112 :: real)"
    by (rule real_le_rsqrt) (simp add: power2_eq_square)
  have hi: "sqrt (3 / 2 ^ 112 :: real) < 1 / 2 ^ 55"
    by (rule real_less_lsqrt) (simp_all add: power2_eq_square)
  have "rnd (sqrt (3 / 2 ^ 112)) = (1 / 2 ^ 108) * of_int 7800463371553962"
  proof (rule rnd_evalI [where e = "-56"])
    have "(2::real) powr real_of_int (- 56) = 1 / 2 ^ 56" by (simp add: powr_minus)
    with lo pos show "2 powr real_of_int (- 56) \<le> \<bar>sqrt (3 / 2 ^ 112)\<bar>"
      by (simp only: abs_of_nonneg)
    have "(2::real) powr (real_of_int (- 56) + 1) = 1 / 2 ^ 55" by (simp add: powr_minus)
    with hi pos show "\<bar>sqrt (3 / 2 ^ 112)\<bar> < 2 powr (real_of_int (- 56) + 1)"
      by (simp only: abs_of_nonneg)
    show "1 / 2 ^ 108 = (2::real) powr (real_of_int (- 56) - 52)"
      by (simp add: powr_minus)
    show "(real_of_int 7800463371553962 - 1 / 2) * (1 / 2 ^ 108) < sqrt (3 / 2 ^ 112)"
      by (rule real_less_rsqrt) (simp add: power2_eq_square)
    show "sqrt (3 / 2 ^ 112) < (real_of_int 7800463371553962 + 1 / 2) * (1 / 2 ^ 108)"
      by (rule real_less_lsqrt) (simp_all add: power2_eq_square)
    show "- 1022 \<le> (- 56 :: int)" by simp
  qed
  then show ?thesis unfolding fsqrt_def by simp
qed

lemma tenth_product:
  "fmul (7800463371553962 / 2 ^ 108) (7800463371553962 / 2 ^ 108) = 6755399441055743 / 2 ^ 163"
proof -
  have "rnd ((7800463371553962 / 2 ^ 108) * (7800463371553962 / 2 ^ 108))
      = (1 / 2 ^ 163) * of_int 6755399441055743"
    by (rule rnd_evalI [where e = "-111"]) (simp_all add: powr_minus)
  then show ?thesis unfolding fmul_def by simp
qed

lemma tenth_quotient:
  "fdiv (3 / 2 ^ 112) (6755399441055743 / 2 ^ 163) = 4503599627370497 / 2 ^ 52"
proof -
  have "rnd ((3 / 2 ^ 112) / (6755399441055743 / 2 ^ 163)) = (1 / 2 ^ 52) * of_int 4503599627370497"
    by (rule rnd_evalI [where e = 0]) (simp_all add: powr_minus)
  then show ?thesis unfolding fdiv_def by simp
qed

lemma correlation_tenth:
  "calculateCorrelation [tenth, tenth, tenth] [tenth, tenth, tenth] = 4503599627370497 / 2 ^ 52"
proof -
  define m :: real where "m = 7205759403792795 / 2 ^ 56"
  define a :: real where "a = - (1 / 2 ^ 56)"
  define Q :: real where "Q = 1 / 2 ^ 112"
  define Q2 :: real where "Q2 = 1 / 2 ^ 111"
  define Q3 :: real where "Q3 = 3 / 2 ^ 112"
  define D :: real where "D = 7800463371553962 / 2 ^ 108"
  have avg: "calculateAverage [tenth, tenth, tenth] = m" by (simp only: tenth_average m_def)
  have dev: "fsub tenth m = a" by (simp only: tenth_deviation m_def a_def)
  have sq: "fsquare a = Q" "fmul a a = Q" "fadd 0 Q = Q" "fadd Q Q = Q2" "fadd Q2 Q = Q3"
    by (simp_all only: a_def Q_def Q2_def Q3_def tenth_squares)
  have s: "fsqrt Q3 = D" by (simp only: tenth_root D_def Q3_def)
  have nz: "D \<noteq> 0" by (simp add: D_def)
  have "calculateCorrelation [tenth, tenth, tenth] [tenth, tenth, tenth] = fdiv Q3 (fmul D D)"
    by (simp add: calculateCorrelation_def avg Let_def upt_rec dev sq s nz)
  then show ?thesis by (simp only: D_def Q3_def tenth_product tenth_quotient)
qed

text \<open>
  Claim C5 as it is stated fails: the series 0.1, 0.1, 0.1 is constant and has the
  variance 0, but the mean that the code computes is not 0.1, the denominator is not 0,
  and the correlation of the series with itself is the double after 1, not 0.
\<close>

theorem constant_series_correlation_counterexample:
  "\<not> calculateCorrelation [tenth, tenth, tenth] [tenth, tenth, tenth] = 0"
  by (simp add: correlation_tenth)


subsection \<open>The correlation\<close>

lemma zip_upt_map: "zip xs [0..<length xs] = map (\<lambda>i. (xs ! i, i)) [0..<length xs]"
  by (rule nth_equalityI) simp_all

lemma foldl_zip_upt:
  "foldl (\<lambda>sum (xi, i). G sum xi i) a (zip xs [0..<length xs])
     = foldl (\<lambda>sum i. G sum (xs ! i) i) a [0..<length xs]"
  by (simp add: zip_upt_map foldl_map)

lemma fmul_commute: "fmul a b = fmul b a"
  by (simp add: fmul_def mult.commute)

lemma correlation_float_symmetric:
  assumes l: "length x = length y"
  shows "calculateCorrelation x y = calculateCorrelation y x"
proof -
  have num: "foldl (\<lambda>sum (xi, i). fadd sum (fmul (fsub xi a) (fsub (y ! i) b))) 0 (zip x [0..<length x])
      = foldl (\<lambda>sum (yi, i). fadd sum (fmul (fsub yi b) (fsub (x ! i) a))) 0 (zip y [0..<length y])" for a b
  proof -
    have "foldl (\<lambda>sum (xi, i). fadd sum (fmul (fsub xi a) (fsub (y ! i) b))) 0 (zip x [0..<length x])
        = foldl (\<lambda>sum i. fadd sum (fmul (fsub (x ! i) a) (fsub (y ! i) b))) 0 [0..<length x]"
      by (rule foldl_zip_upt)
    also have "\<dots> = foldl (\<lambda>sum i. fadd sum (fmul (fsub (y ! i) b) (fsub (x ! i) a))) 0 [0..<length y]"
      by (simp add: l fmul_commute [of "fsub (x ! _) a"])
    also have "\<dots> = foldl (\<lambda>sum (yi, i). fadd sum (fmul (fsub yi b) (fsub (x ! i) a))) 0 (zip y [0..<length y])"
      by (rule foldl_zip_upt [symmetric])
    finally show ?thesis .
  qed
  show ?thesis
    unfolding calculateCorrelation_def Let_def num
    using l by (auto simp: fmul_commute)
qed

lemma squares_sum_nonneg: "0 \<le> foldl (\<lambda>sum v. fadd sum (fsquare (fsub v a))) 0 xs"
  by (induction xs rule: rev_induct) (simp_all add: fadd_def fsquare_def rnd_nonneg)

lemma squares_sum_rounded: "\<exists>z. foldl (\<lambda>sum v. fadd sum (fsquare (fsub v a))) 0 xs = rnd z"
proof (cases xs rule: rev_cases)
  case Nil
  then show ?thesis using rnd_zero by (intro exI [of _ 0]) simp
next
  case (snoc us t)
  then show ?thesis by (simp add: fadd_def) blast
qed

text \<open>
  A denominator of \<open>calculateCorrelation\<close> that is not 0 is at least \<open>2^-537\<close>: the sum of
  the squares is a double, so at least \<open>2^-1074\<close>. The product of two such denominators
  does not round to 0, so that the divisor of the last division is never 0.
\<close>

lemma denominator_magnitude:
  assumes "fsqrt (foldl (\<lambda>sum v. fadd sum (fsquare (fsub v a))) 0 xs) \<noteq> 0"
  shows "1 / 2 ^ 537 \<le> fsqrt (foldl (\<lambda>sum v. fadd sum (fsquare (fsub v a))) 0 xs)"
proof -
  define S where "S = foldl (\<lambda>sum v. fadd sum (fsquare (fsub v a))) 0 xs"
  obtain z where z: "S = rnd z" using squares_sum_rounded [of a xs] by (auto simp: S_def)
  have S0: "0 \<le> S" unfolding S_def by (rule squares_sum_nonneg)
  have "S \<noteq> 0"
  proof
    assume "S = 0"
    then have "fsqrt S = 0" by (simp add: fsqrt_def rnd_zero)
    with assms show False by (simp add: S_def)
  qed
  then have "1 / 2 ^ 1074 \<le> S" using rnd_nonzero_magnitude [of z] z S0 by simp
  then have "(1 / 2 ^ 537)\<^sup>2 \<le> S" by (simp add: power2_eq_square)
  then have lo: "1 / 2 ^ 537 \<le> sqrt S" by (rule real_le_rsqrt)
  have p: "(2::real) powr of_int (- 537) = 1 / 2 ^ 537" by (simp add: powr_minus inverse_eq_divide)
  have "minNormal \<le> 1 / 2 ^ 537" by (simp add: minNormal_def)
  with lo have nrm: "minNormal \<le> sqrt S" by linarith
  have pos: "0 < sqrt S" using nrm minNormal_pos by linarith
  have "(2::real) powr of_int (- 537) \<le> sqrt S" using lo by (simp only: p)
  then have "of_int (- 537) \<le> log 2 (sqrt S)" using pos by (simp only: le_log_iff)
  then have "- 537 \<le> \<lfloor>log 2 (sqrt S)\<rfloor>" by (simp only: le_floor_iff)
  then have "real_of_int (- 537) \<le> of_int \<lfloor>log 2 (sqrt S)\<rfloor>" by (simp only: of_int_le_iff)
  then have "(2::real) powr of_int (- 537) \<le> 2 powr of_int \<lfloor>log 2 (sqrt S)\<rfloor>"
    by (intro powr_mono) simp_all
  also have "\<dots> \<le> rnd (sqrt S)" by (rule rnd_binade_lower [OF nrm])
  finally have "1 / 2 ^ 537 \<le> rnd (sqrt S)" by (simp only: p)
  then show ?thesis by (simp only: fsqrt_def S_def)
qed

lemma correlation_divisor_nonzero:
  assumes "fsqrt (foldl (\<lambda>sum v. fadd sum (fsquare (fsub v a))) 0 xs) \<noteq> 0"
    and "fsqrt (foldl (\<lambda>sum v. fadd sum (fsquare (fsub v b))) 0 ys) \<noteq> 0"
  shows "fmul (fsqrt (foldl (\<lambda>sum v. fadd sum (fsquare (fsub v a))) 0 xs))
              (fsqrt (foldl (\<lambda>sum v. fadd sum (fsquare (fsub v b))) 0 ys)) \<noteq> 0"
proof -
  define dX where "dX = fsqrt (foldl (\<lambda>sum v. fadd sum (fsquare (fsub v a))) 0 xs)"
  define dY where "dY = fsqrt (foldl (\<lambda>sum v. fadd sum (fsquare (fsub v b))) 0 ys)"
  have dX: "1 / 2 ^ 537 \<le> dX" unfolding dX_def by (rule denominator_magnitude [OF assms(1)])
  have dY: "1 / 2 ^ 537 \<le> dY" unfolding dY_def by (rule denominator_magnitude [OF assms(2)])
  have "(1 / 2 ^ 537) * (1 / 2 ^ 537) \<le> dX * dY" using dX dY by (intro mult_mono) simp_all
  then have P: "1 / 2 ^ 1074 \<le> dX * dY" by simp
  have "rnd (dX * dY) \<noteq> 0"
  proof (cases "\<bar>dX * dY\<bar> < minNormal")
    case True
    have "1 \<le> (dX * dY) * 2 ^ 1074" using P by (simp add: field_simps)
    then have "roundEven ((dX * dY) * 2 ^ 1074) \<noteq> 0"
      using roundEven_zero_bound [of "(dX * dY) * 2 ^ 1074"] by fastforce
    then show ?thesis by (simp add: rnd_subnormal [OF True])
  next
    case False
    then have n: "minNormal \<le> dX * dY" using P by simp
    then have "(1 - unitRoundoff) * (dX * dY) \<le> rnd (dX * dY)"
      by (intro rnd_lower_normal) simp
    moreover have "0 < 1 - unitRoundoff" using unitRoundoff_bounds by simp
    moreover have "0 < dX * dY" using n minNormal_pos by linarith
    ultimately have "0 < (1 - unitRoundoff) * (dX * dY) \<and> (1 - unitRoundoff) * (dX * dY) \<le> rnd (dX * dY)"
      using mult_pos_pos [of "1 - unitRoundoff" "dX * dY"] by blast
    then have "0 < rnd (dX * dY)" by linarith
    then show ?thesis by simp
  qed
  then show ?thesis by (simp add: fmul_def dX_def dY_def)
qed

text \<open>
  The size of the result. The numerator and the two denominators are computed from the
  same rounded deviations, so that the Cauchy-Schwarz inequality bounds the exact sum of
  their products by the exact sums of their squares; each rounding of the sums, the
  square roots, the product and the quotient then costs a factor of at most \<open>1 + u\<close> or
  \<open>1 / (1 - u)\<close>.
\<close>

lemma sum_list_nth: "sum_list (map g xs) = (\<Sum>i<length xs. g (xs ! i))" for g :: "'a \<Rightarrow> real"
  by (induction xs rule: rev_induct) (simp_all add: nth_append)

lemma cauchy_schwarz_sum:
  fixes a b :: "nat \<Rightarrow> real"
  shows "(\<Sum>i<n. a i * b i)\<^sup>2 \<le> (\<Sum>i<n. (a i)\<^sup>2) * (\<Sum>i<n. (b i)\<^sup>2)"
proof -
  let ?A = "\<Sum>i<n. (a i)\<^sup>2" and ?B = "\<Sum>i<n. (b i)\<^sup>2" and ?C = "\<Sum>i<n. a i * b i"
  have AB: "(\<Sum>i<n. \<Sum>j<n. (a i)\<^sup>2 * (b j)\<^sup>2) = ?A * ?B"
    by (simp add: sum_product)
  have BA: "(\<Sum>i<n. \<Sum>j<n. (a j)\<^sup>2 * (b i)\<^sup>2) = ?A * ?B"
    using sum.swap [of "\<lambda>i j. (a j)\<^sup>2 * (b i)\<^sup>2" "{..<n}" "{..<n}"] AB by simp
  have CC: "(\<Sum>i<n. \<Sum>j<n. (a i * b i) * (a j * b j)) = ?C * ?C"
    by (simp add: sum_product)
  have "0 \<le> (\<Sum>i<n. \<Sum>j<n. (a i * b j - a j * b i)\<^sup>2)"
    by (intro sum_nonneg) simp
  also have "(\<Sum>i<n. \<Sum>j<n. (a i * b j - a j * b i)\<^sup>2)
      = (\<Sum>i<n. \<Sum>j<n. ((a i)\<^sup>2 * (b j)\<^sup>2 + (a j)\<^sup>2 * (b i)\<^sup>2) - 2 * ((a i * b i) * (a j * b j)))"
    by (intro sum.cong refl) (simp add: power2_eq_square algebra_simps)
  also have "\<dots> = (\<Sum>i<n. \<Sum>j<n. (a i)\<^sup>2 * (b j)\<^sup>2) + (\<Sum>i<n. \<Sum>j<n. (a j)\<^sup>2 * (b i)\<^sup>2)
         - 2 * (\<Sum>i<n. \<Sum>j<n. (a i * b i) * (a j * b j))"
    by (simp only: sum_subtractf sum.distrib sum_distrib_left)
  also have "\<dots> = 2 * (?A * ?B) - 2 * (?C * ?C)"
    by (simp only: AB BA CC)
  finally show ?thesis
    by (simp add: power2_eq_square)
qed

lemma cauchy_schwarz_abs:
  fixes a b :: "nat \<Rightarrow> real"
  shows "(\<Sum>i<n. \<bar>a i * b i\<bar>) \<le> sqrt ((\<Sum>i<n. (a i)\<^sup>2) * (\<Sum>i<n. (b i)\<^sup>2))"
proof -
  have "(\<Sum>i<n. \<bar>a i\<bar> * \<bar>b i\<bar>)\<^sup>2 \<le> (\<Sum>i<n. \<bar>a i\<bar>\<^sup>2) * (\<Sum>i<n. \<bar>b i\<bar>\<^sup>2)"
    by (rule cauchy_schwarz_sum)
  then have "(\<Sum>i<n. \<bar>a i * b i\<bar>)\<^sup>2 \<le> (\<Sum>i<n. (a i)\<^sup>2) * (\<Sum>i<n. (b i)\<^sup>2)"
    by (simp add: abs_mult)
  then have "sqrt ((\<Sum>i<n. \<bar>a i * b i\<bar>)\<^sup>2) \<le> sqrt ((\<Sum>i<n. (a i)\<^sup>2) * (\<Sum>i<n. (b i)\<^sup>2))"
    by (simp only: real_sqrt_le_iff)
  moreover have "0 \<le> (\<Sum>i<n. \<bar>a i * b i\<bar>)" by (intro sum_nonneg) simp
  ultimately show ?thesis by simp
qed

lemma one_minus_roundoff_power:
  assumes "n \<le> 2 ^ 52"
  shows "1/2 \<le> (1 - unitRoundoff) ^ n"
proof -
  have "1 + real n * (- unitRoundoff) \<le> (1 + (- unitRoundoff)) ^ n"
    using unitRoundoff_bounds by (intro Bernoulli_inequality) simp
  then have b: "1 - real n * unitRoundoff \<le> (1 - unitRoundoff) ^ n" by simp
  from assms have "real n \<le> real (2 ^ 52)" by (simp only: of_nat_le_iff)
  then have "real n * unitRoundoff \<le> 1/2" by (simp add: unitRoundoff_def)
  with b show ?thesis by linarith
qed

lemma sum_list_threshold:
  fixes ts :: "real list"
  assumes "\<forall>t \<in> set ts. t = 0 \<or> c \<le> t" "0 \<le> c"
  shows "0 \<le> sum_list ts \<and> (sum_list ts = 0 \<or> c \<le> sum_list ts)"
  using assms
proof (induction ts)
  case Nil
  then show ?case by simp
next
  case (Cons t ts)
  then have ih: "0 \<le> sum_list ts" "sum_list ts = 0 \<or> c \<le> sum_list ts" by simp_all
  from Cons.prems have "t = 0 \<or> c \<le> t" by simp
  with ih Cons.prems(2) show ?case by auto
qed

text \<open>The rounded sum of terms that are 0 or normal loses at most one rounding per term.\<close>

lemma sum_rounded_lower:
  assumes "\<forall>t \<in> set ts. t = 0 \<or> 2 * minNormal \<le> t" "length ts \<le> 2 ^ 52"
  shows "(1 - unitRoundoff) ^ length ts * sum_list ts \<le> foldl fadd 0 ts
       \<and> (sum_list ts = 0 \<longrightarrow> foldl fadd 0 ts = 0)"
  using assms
proof (induction ts rule: rev_induct)
  case Nil
  then show ?case by simp
next
  case (snoc t ts)
  define s where "s = foldl fadd 0 ts"
  define T where "T = sum_list ts"
  define r where "r = 1 - unitRoundoff"
  define k where "k = length ts"
  have r: "0 < r" "r \<le> 1" using unitRoundoff_bounds by (simp_all add: r_def)
  have rk: "0 < r ^ k" "r ^ k \<le> 1" using r by (simp_all add: power_le_one)
  from snoc.prems have hyp: "\<forall>t \<in> set ts. t = 0 \<or> 2 * minNormal \<le> t" "length ts \<le> 2 ^ 52"
    and t: "t = 0 \<or> 2 * minNormal \<le> t" by simp_all
  from snoc.IH [OF hyp] have ih: "r ^ k * T \<le> s" "T = 0 \<Longrightarrow> s = 0"
    by (simp_all add: s_def T_def r_def k_def)
  have T: "0 \<le> T" "T = 0 \<or> 2 * minNormal \<le> T"
    using sum_list_threshold [OF hyp(1)] minNormal_pos by (simp_all add: T_def)
  have t0: "0 \<le> t" using t minNormal_pos by auto
  have half: "1/2 \<le> r ^ k" unfolding r_def k_def by (rule one_minus_roundoff_power [OF hyp(2)])
  have f: "foldl fadd 0 (ts @ [t]) = rnd (s + t)" by (simp add: s_def fadd_def)
  show ?case
  proof (cases "T + t = 0")
    case True
    with T(1) t0 have "T = 0" "t = 0" by linarith+
    with ih(2) have "s + t = 0" by simp
    then show ?thesis unfolding f using True by (simp add: rnd_zero T_def)
  next
    case False
    have low: "r ^ k * (T + t) \<le> s + t"
    proof -
      have "r ^ k * t \<le> 1 * t" using rk(2) t0 by (intro mult_right_mono) simp_all
      with ih(1) show ?thesis by (simp add: algebra_simps)
    qed
    have "2 * minNormal \<le> T + t" using False T t t0 by linarith
    then have "1/2 * (2 * minNormal) \<le> r ^ k * (T + t)"
      using half minNormal_pos by (intro mult_mono) simp_all
    with low have nrm: "minNormal \<le> s + t" by simp
    then have "(1 - unitRoundoff) * (s + t) \<le> rnd (s + t)"
      by (intro rnd_lower_normal) simp
    moreover have "r * (r ^ k * (T + t)) \<le> r * (s + t)"
      using low r(1) by (intro mult_left_mono) simp_all
    ultimately have "r ^ Suc k * (T + t) \<le> rnd (s + t)"
      by (simp add: r_def mult.assoc)
    then show ?thesis unfolding f using False by (simp add: T_def r_def k_def)
  qed
qed

text \<open>The rounded sum of any terms gains at most one rounding per term.\<close>

lemma sum_rounded_upper:
  "\<bar>foldl fadd 0 ts\<bar> \<le> (1 + unitRoundoff) ^ length ts * (sum_list (map abs ts) + minNormal)"
proof (induction ts rule: rev_induct)
  case Nil
  then show ?case using minNormal_pos by simp
next
  case (snoc t ts)
  define s where "s = foldl fadd 0 ts"
  define A where "A = sum_list (map abs ts)"
  define r where "r = 1 + unitRoundoff"
  define k where "k = length ts"
  have r: "1 \<le> r" using unitRoundoff_bounds by (simp add: r_def)
  have rk: "1 \<le> r ^ k" using r by (rule one_le_power)
  have A: "0 \<le> A" unfolding A_def by (induction ts) simp_all
  have ih: "\<bar>s\<bar> \<le> r ^ k * (A + minNormal)"
    using snoc.IH by (simp add: s_def A_def r_def k_def)
  have f: "foldl fadd 0 (ts @ [t]) = rnd (s + t)" by (simp add: s_def fadd_def)
  have "1 * \<bar>t\<bar> \<le> r ^ k * \<bar>t\<bar>" using rk by (intro mult_right_mono) simp_all
  with ih have "\<bar>s + t\<bar> \<le> r ^ k * (A + \<bar>t\<bar> + minNormal)"
    by (simp add: algebra_simps)
  then have "r * \<bar>s + t\<bar> \<le> r * (r ^ k * (A + \<bar>t\<bar> + minNormal))"
    using r by (intro mult_left_mono) simp_all
  then have one: "(1 + unitRoundoff) * \<bar>s + t\<bar> \<le> r ^ Suc k * (A + \<bar>t\<bar> + minNormal)"
    by (simp add: r_def mult.assoc)
  have "1 \<le> r ^ Suc k" using r by (rule one_le_power)
  then have "1 * minNormal \<le> r ^ Suc k * (A + \<bar>t\<bar> + minNormal)"
    using A minNormal_pos by (intro mult_mono) simp_all
  with one have "max ((1 + unitRoundoff) * \<bar>s + t\<bar>) minNormal \<le> r ^ Suc k * (A + \<bar>t\<bar> + minNormal)"
    by simp
  with rnd_upper [of "s + t"] have "\<bar>rnd (s + t)\<bar> \<le> r ^ Suc k * (A + \<bar>t\<bar> + minNormal)"
    by linarith
  then show ?case unfolding f by (simp add: A_def r_def k_def)
qed

lemma roundingBound_ge_one: "1 \<le> roundingBound n"
proof -
  have "1 \<le> (1 + unitRoundoff) / (1 - unitRoundoff)"
    using unitRoundoff_bounds by (simp add: le_divide_eq)
  then show ?thesis unfolding roundingBound_def by (rule one_le_power)
qed

text \<open>Squares and products of deviations that are 0 or at least \<open>2^-480\<close> are 0 or normal.\<close>

lemma square_in_range:
  fixes a :: real
  assumes "a = 0 \<or> 1 / 2 ^ 480 \<le> \<bar>a\<bar>"
  shows "a * a = 0 \<or> 1 / 2 ^ 960 \<le> a * a"
proof (cases "a = 0")
  case True
  then show ?thesis by simp
next
  case False
  with assms have "1 / 2 ^ 480 \<le> \<bar>a\<bar>" by simp
  then have "(1 / 2 ^ 480) * (1 / 2 ^ 480) \<le> \<bar>a\<bar> * \<bar>a\<bar>" by (intro mult_mono) simp_all
  then show ?thesis by simp
qed

lemma product_in_range:
  fixes a b :: real
  assumes "a = 0 \<or> 1 / 2 ^ 480 \<le> \<bar>a\<bar>" "b = 0 \<or> 1 / 2 ^ 480 \<le> \<bar>b\<bar>"
  shows "a * b = 0 \<or> minNormal \<le> \<bar>a * b\<bar>"
proof (cases "a = 0 \<or> b = 0")
  case True
  then show ?thesis by auto
next
  case False
  with assms have "1 / 2 ^ 480 \<le> \<bar>a\<bar>" "1 / 2 ^ 480 \<le> \<bar>b\<bar>" by simp_all
  then have "(1 / 2 ^ 480) * (1 / 2 ^ 480) \<le> \<bar>a\<bar> * \<bar>b\<bar>" by (intro mult_mono) simp_all
  then have "minNormal \<le> \<bar>a\<bar> * \<bar>b\<bar>" by (simp add: minNormal_def)
  then show ?thesis by (simp add: abs_mult)
qed

lemma fsquare_bounds:
  assumes "a = 0 \<or> 1 / 2 ^ 480 \<le> \<bar>a\<bar>"
  shows "(1 - unitRoundoff) * (a * a) \<le> fsquare a"
    and "fsquare a \<le> (1 + unitRoundoff) * (a * a)"
    and "fsquare a = 0 \<or> 2 * minNormal \<le> fsquare a"
proof -
  from square_in_range [OF assms] have sq: "a * a = 0 \<or> 1 / 2 ^ 960 \<le> a * a" .
  then have n: "a * a = 0 \<or> minNormal \<le> a * a" by (auto simp: minNormal_def)
  show low: "(1 - unitRoundoff) * (a * a) \<le> fsquare a"
    unfolding fsquare_def by (rule rnd_lower_normal [OF n])
  have "a * a = 0 \<or> minNormal \<le> \<bar>a * a\<bar>" using n by auto
  from rnd_upper_normal [OF this] show "fsquare a \<le> (1 + unitRoundoff) * (a * a)"
    by (simp add: fsquare_def)
  show "fsquare a = 0 \<or> 2 * minNormal \<le> fsquare a"
  proof (cases "a * a = 0")
    case True
    then show ?thesis by (simp add: fsquare_def rnd_zero)
  next
    case False
    with sq have "1 / 2 ^ 960 \<le> a * a" by simp
    then have "(1/2) * (1 / 2 ^ 960) \<le> (1 - unitRoundoff) * (a * a)"
      using unitRoundoff_bounds by (intro mult_mono) simp_all
    with low have "(1/2) * (1 / 2 ^ 960) \<le> fsquare a" by linarith
    then show ?thesis by (simp add: minNormal_def)
  qed
qed

lemma fmul_bound:
  assumes "a = 0 \<or> 1 / 2 ^ 480 \<le> \<bar>a\<bar>" "b = 0 \<or> 1 / 2 ^ 480 \<le> \<bar>b\<bar>"
  shows "\<bar>fmul a b\<bar> \<le> (1 + unitRoundoff) * \<bar>a * b\<bar>"
  unfolding fmul_def by (rule rnd_upper_normal [OF product_in_range [OF assms]])

text \<open>
  The denominator of a series whose deviations are \<open>as\<close>: when it is not 0, the exact sum
  of the squared deviations is at least \<open>2^-960\<close>, and the denominator is its square root
  up to the roundings.
\<close>

lemma denominator_lower:
  assumes dev: "\<forall>a \<in> set as. a = 0 \<or> 1 / 2 ^ 480 \<le> \<bar>a\<bar>"
    and len: "length as < 2 ^ 32"
    and nz: "fsqrt (foldl fadd 0 (map fsquare as)) \<noteq> 0"
  shows "1 / 2 ^ 960 \<le> sum_list (map (\<lambda>a. a * a) as)"
    and "(1 - unitRoundoff) * sqrt ((1 - unitRoundoff) ^ (length as + 1) * sum_list (map (\<lambda>a. a * a) as))
           \<le> fsqrt (foldl fadd 0 (map fsquare as))"
proof -
  define r where "r = 1 - unitRoundoff"
  define n where "n = length as"
  define S where "S = foldl fadd 0 (map fsquare as)"
  define T where "T = sum_list (map fsquare as)"
  define A where "A = sum_list (map (\<lambda>a. a * a) as)"
  have r: "0 < r" "r \<le> 1" using unitRoundoff_bounds by (simp_all add: r_def)
  have n52: "n + 1 \<le> 2 ^ 52" using len by (simp add: n_def)
  have terms: "\<forall>t \<in> set (map fsquare as). t = 0 \<or> 2 * minNormal \<le> t"
    using dev fsquare_bounds(3) by auto
  have "length (map fsquare as) \<le> 2 ^ 52" using n52 by (simp add: n_def)
  from sum_rounded_lower [OF terms this]
  have low: "r ^ n * T \<le> S" and zero: "T = 0 \<Longrightarrow> S = 0"
    by (simp_all add: r_def n_def S_def T_def)
  have Snz: "S \<noteq> 0"
  proof
    assume "S = 0"
    then have "fsqrt S = 0" by (simp add: fsqrt_def rnd_zero)
    with nz show False by (simp add: S_def)
  qed
  have TA: "r * A \<le> T"
  proof -
    have "sum_list (map (\<lambda>a. r * (a * a)) as) \<le> sum_list (map fsquare as)"
      using dev fsquare_bounds(1) by (intro sum_list_mono) (simp add: r_def)
    then show ?thesis by (simp add: A_def T_def sum_list_const_mult)
  qed
  have AT: "T \<le> (1 + unitRoundoff) * A"
  proof -
    have "sum_list (map fsquare as) \<le> sum_list (map (\<lambda>a. (1 + unitRoundoff) * (a * a)) as)"
      using dev fsquare_bounds(2) by (intro sum_list_mono) simp
    then show ?thesis by (simp add: A_def T_def sum_list_const_mult)
  qed
  have sq: "\<forall>t \<in> set (map (\<lambda>a. a * a) as). t = 0 \<or> 1 / 2 ^ 960 \<le> t"
    using dev square_in_range by auto
  from sum_list_threshold [OF sq] have A: "0 \<le> A" "A = 0 \<or> 1 / 2 ^ 960 \<le> A"
    by (simp_all add: A_def)
  have T0: "0 \<le> T" using TA A(1) r(1) by (smt (verit) mult_nonneg_nonneg)
  have "A \<noteq> 0"
  proof
    assume "A = 0"
    with AT T0 have "T = 0" by simp
    with zero Snz show False by simp
  qed
  with A(2) show A960: "1 / 2 ^ 960 \<le> sum_list (map (\<lambda>a. a * a) as)" by (simp add: A_def)
  have rn: "0 < r ^ n" "1/2 \<le> r ^ (n + 1)"
    using r(1) one_minus_roundoff_power [OF n52] by (simp_all add: r_def)
  have "r ^ n * (r * A) \<le> r ^ n * T" using TA rn(1) by (intro mult_left_mono) simp_all
  with low have "r ^ n * (r * A) \<le> S" by linarith
  then have SA: "r ^ (n + 1) * A \<le> S" by (simp add: mult.assoc mult.left_commute)
  have "(1/2) * (1 / 2 ^ 960) \<le> r ^ (n + 1) * A"
    using rn(2) A960 by (intro mult_mono) (simp_all add: A_def)
  then have "minNormal \<le> r ^ (n + 1) * A" by (simp add: minNormal_def)
  with SA have Smin: "minNormal \<le> S" by linarith
  have "minNormal\<^sup>2 \<le> minNormal * 1"
    unfolding power2_eq_square using minNormal_pos by (intro mult_left_mono) (simp_all add: minNormal_def)
  with Smin have "minNormal\<^sup>2 \<le> S" by simp
  then have "minNormal \<le> sqrt S" using minNormal_pos by (intro real_le_rsqrt)
  then have "(1 - unitRoundoff) * sqrt S \<le> rnd (sqrt S)"
    by (intro rnd_lower_normal) simp
  moreover have "sqrt (r ^ (n + 1) * A) \<le> sqrt S" using SA by (simp only: real_sqrt_le_iff)
  then have "r * sqrt (r ^ (n + 1) * A) \<le> r * sqrt S"
    using r(1) by (intro mult_left_mono) simp_all
  ultimately show "(1 - unitRoundoff) * sqrt ((1 - unitRoundoff) ^ (length as + 1) * sum_list (map (\<lambda>a. a * a) as))
           \<le> fsqrt (foldl fadd 0 (map fsquare as))"
    by (simp add: fsqrt_def r_def n_def S_def A_def)
qed

lemma sum_list_upt_sum: "sum_list (map g [0..<n]) = (\<Sum>i<n. g i)" for g :: "nat \<Rightarrow> real"
  by (induction n) simp_all

lemma correlation_rounding_bound:
  assumes l: "length x = length y"
    and len: "length x < 2 ^ 32"
    and dx: "deviationsNormal x" and dy: "deviationsNormal y"
  shows "\<bar>calculateCorrelation x y\<bar> \<le> roundingBound (length x)"
proof (cases "x = []")
  case True
  then show ?thesis using roundingBound_ge_one [of 0] by (simp add: calculateCorrelation_def)
next
  case False
  define n where "n = length x"
  define mx where "mx = calculateAverage x"
  define my where "my = calculateAverage y"
  define as where "as = map (\<lambda>v. fsub v mx) x"
  define bs where "bs = map (\<lambda>v. fsub v my) y"
  define r where "r = 1 - unitRoundoff"
  define q where "q = 1 + unitRoundoff"
  define A where "A = sum_list (map (\<lambda>a. a * a) as)"
  define B where "B = sum_list (map (\<lambda>a. a * a) bs)"
  define dX where "dX = fsqrt (foldl fadd 0 (map fsquare as))"
  define dY where "dY = fsqrt (foldl fadd 0 (map fsquare bs))"
  define ps where "ps = map (\<lambda>i. fmul (as ! i) (bs ! i)) [0..<n]"
  define N where "N = foldl fadd 0 ps"
  define R where "R = sqrt A * sqrt B"
  have r: "0 < r" "r \<le> 1" and q: "1 \<le> q" "0 < q"
    using unitRoundoff_bounds by (simp_all add: r_def q_def)
  have las: "length as = n" "length bs = n" using l by (simp_all add: as_def bs_def n_def)
  have n0: "n \<noteq> 0" using False by (simp add: n_def)
  have deva: "\<forall>a \<in> set as. a = 0 \<or> 1 / 2 ^ 480 \<le> \<bar>a\<bar>"
    using dx by (auto simp: deviationsNormal_def as_def mx_def)
  have devb: "\<forall>b \<in> set bs. b = 0 \<or> 1 / 2 ^ 480 \<le> \<bar>b\<bar>"
    using dy by (auto simp: deviationsNormal_def bs_def my_def)
  have lena: "length as < 2 ^ 32" "length bs < 2 ^ 32" using len las by (simp_all add: n_def)
  have sx: "foldl (\<lambda>sum xi. fadd sum (fsquare (fsub xi mx))) 0 x = foldl fadd 0 (map fsquare as)"
    by (simp add: as_def foldl_map)
  have sy: "foldl (\<lambda>sum yi. fadd sum (fsquare (fsub yi my))) 0 y = foldl fadd 0 (map fsquare bs)"
    by (simp add: bs_def foldl_map)
  have num: "foldl (\<lambda>sum (xi, i). fadd sum (fmul (fsub xi mx) (fsub (y ! i) my))) 0 (zip x [0..<length x]) = N"
  proof -
    have "foldl (\<lambda>sum (xi, i). fadd sum (fmul (fsub xi mx) (fsub (y ! i) my))) 0 (zip x [0..<length x])
        = foldl (\<lambda>sum i. fadd sum (fmul (fsub (x ! i) mx) (fsub (y ! i) my))) 0 [0..<length x]"
      by (rule foldl_zip_upt)
    also have "\<dots> = foldl (\<lambda>sum i. fadd sum (fmul (as ! i) (bs ! i))) 0 [0..<length x]"
      using l by (intro foldl_cong refl) (simp add: as_def bs_def)
    also have "\<dots> = N" by (simp add: N_def ps_def foldl_map n_def)
    finally show ?thesis .
  qed
  have corr: "calculateCorrelation x y = (if dX = 0 \<or> dY = 0 then 0 else fdiv N (fmul dX dY))"
    unfolding calculateCorrelation_def Let_def mx_def [symmetric] my_def [symmetric] sx sy num
    using l False by (auto simp: dX_def dY_def)
  show ?thesis
  proof (cases "dX = 0 \<or> dY = 0")
    case True
    then show ?thesis using roundingBound_ge_one [of "length x"] by (simp add: corr)
  next
    case False
    then have nzx: "fsqrt (foldl fadd 0 (map fsquare as)) \<noteq> 0"
      and nzy: "fsqrt (foldl fadd 0 (map fsquare bs)) \<noteq> 0"
      by (simp_all add: dX_def dY_def)
    define g where "g = sqrt (r ^ (n + 1))"
    have g: "0 \<le> g" "g * g = r ^ (n + 1)" using r(1) by (simp_all add: g_def)
    from denominator_lower [OF deva lena(1) nzx]
    have A960: "1 / 2 ^ 960 \<le> A" and dXl: "r * (g * sqrt A) \<le> dX"
      by (simp_all add: A_def dX_def r_def las g_def real_sqrt_mult)
    from denominator_lower [OF devb lena(2) nzy]
    have B960: "1 / 2 ^ 960 \<le> B" and dYl: "r * (g * sqrt B) \<le> dY"
      by (simp_all add: B_def dY_def r_def las g_def real_sqrt_mult)
    have sA: "1 / 2 ^ 480 \<le> sqrt A"
      using A960 by (intro real_le_rsqrt) (simp add: power2_eq_square)
    have sB: "1 / 2 ^ 480 \<le> sqrt B"
      using B960 by (intro real_le_rsqrt) (simp add: power2_eq_square)
    have A0: "0 \<le> A" "0 \<le> B" using A960 B960
      by (smt (verit) divide_nonneg_nonneg zero_le_numeral zero_le_power)+
    then have AB0: "0 \<le> sqrt A" "0 \<le> sqrt B" by simp_all
    have "(1 / 2 ^ 480) * (1 / 2 ^ 480) \<le> sqrt A * sqrt B"
      using sA sB A0 by (intro mult_mono) simp_all
    then have R960: "1 / 2 ^ 960 \<le> R" by (simp add: R_def)
    then have Rpos: "0 < R" by (smt (verit) divide_pos_pos zero_less_numeral zero_less_power)
    have n52: "n + 4 \<le> 2 ^ 52" using len by (simp add: n_def)
    then have "n + 3 \<le> 2 ^ 52" by simp
    then have h3: "1/2 \<le> r ^ (n + 3)" unfolding r_def by (rule one_minus_roundoff_power)
    have h4: "0 < r ^ (n + 4)" using r(1) by simp
    have nn: "0 \<le> r * (g * sqrt A)" "0 \<le> r * (g * sqrt B)"
      using r(1) g(1) AB0 by (simp_all add: mult_nonneg_nonneg less_imp_le)
    have "0 \<le> dX" using nn(1) dXl by linarith
    then have "(r * (g * sqrt A)) * (r * (g * sqrt B)) \<le> dX * dY"
      using dXl dYl nn(2) by (intro mult_mono)
    moreover have "(r * (g * sqrt A)) * (r * (g * sqrt B)) = r * r * (g * g) * R"
      by (simp add: R_def)
    moreover have "r * r * (g * g) = r ^ (n + 3)" by (simp add: g(2) power_add power3_eq_cube)
    ultimately have dd: "r ^ (n + 3) * R \<le> dX * dY" by simp
    have "(1/2) * (1 / 2 ^ 960) \<le> r ^ (n + 3) * R"
      using h3 R960 by (intro mult_mono) simp_all
    with dd have ddn: "minNormal \<le> dX * dY" by (simp add: minNormal_def)
    then have "r * (dX * dY) \<le> rnd (dX * dY)"
      unfolding r_def by (intro rnd_lower_normal) simp
    moreover have "r * (r ^ (n + 3) * R) \<le> r * (dX * dY)"
      using dd r(1) by (intro mult_left_mono) simp_all
    ultimately have "r * (r ^ (n + 3) * R) \<le> fmul dX dY"
      unfolding fmul_def by linarith
    moreover have "r * (r ^ (n + 3) * R) = r ^ (n + 4) * R"
    proof -
      have "n + 4 = Suc (n + 3)" by simp
      then have "r ^ (n + 4) = r * r ^ (n + 3)" by (simp only: power_Suc)
      then show ?thesis by simp
    qed
    ultimately have P: "r ^ (n + 4) * R \<le> fmul dX dY" by (simp only:)
    have Plow: "0 < r ^ (n + 4) * R" using h4 Rpos by simp
    have psum: "sum_list (map abs ps) \<le> q * R"
    proof -
      have "sum_list (map abs ps) = (\<Sum>i<n. \<bar>fmul (as ! i) (bs ! i)\<bar>)"
        by (simp add: ps_def comp_def sum_list_upt_sum)
      also have "\<dots> \<le> (\<Sum>i<n. q * \<bar>as ! i * bs ! i\<bar>)"
        unfolding q_def using deva devb las by (intro sum_mono fmul_bound) simp_all
      also have "\<dots> = q * (\<Sum>i<n. \<bar>as ! i * bs ! i\<bar>)" by (simp add: sum_distrib_left)
      also have "\<dots> \<le> q * sqrt ((\<Sum>i<n. (as ! i)\<^sup>2) * (\<Sum>i<n. (bs ! i)\<^sup>2))"
        using q(2) cauchy_schwarz_abs [of "\<lambda>i. as ! i" "\<lambda>i. bs ! i" n]
        by (intro mult_left_mono) simp_all
      also have "(\<Sum>i<n. (as ! i)\<^sup>2) = A"
        using sum_list_nth [of "\<lambda>a. a * a" as] by (simp add: A_def las power2_eq_square)
      also have "(\<Sum>i<n. (bs ! i)\<^sup>2) = B"
        using sum_list_nth [of "\<lambda>a. a * a" bs] by (simp add: B_def las power2_eq_square)
      also have "sqrt (A * B) = R" by (simp add: R_def real_sqrt_mult)
      finally show ?thesis .
    qed
    have small: "minNormal \<le> unitRoundoff * (q * R)"
    proof -
      have "1 * (1 / 2 ^ 960) \<le> q * R" using q(1) R960 by (intro mult_mono) simp_all
      then have "unitRoundoff * (1 / 2 ^ 960) \<le> unitRoundoff * (q * R)"
        using unitRoundoff_bounds(1) by (intro mult_left_mono) simp_all
      moreover have "minNormal \<le> unitRoundoff * (1 / 2 ^ 960)"
        by (simp add: minNormal_def unitRoundoff_def)
      ultimately show ?thesis by linarith
    qed
    have "\<bar>N\<bar> \<le> q ^ n * (sum_list (map abs ps) + minNormal)"
      using sum_rounded_upper [of ps] by (simp add: N_def q_def ps_def)
    also have "\<dots> \<le> q ^ n * (q * R + unitRoundoff * (q * R))"
      using psum small q(2) by (intro mult_left_mono) simp_all
    also have "\<dots> = q ^ (n + 2) * R"
      by (simp add: q_def algebra_simps power2_eq_square)
    finally have Nup: "\<bar>N\<bar> \<le> q ^ (n + 2) * R" .
    have "\<bar>N\<bar> / fmul dX dY \<le> (q ^ (n + 2) * R) / (r ^ (n + 4) * R)"
      using Nup Plow P by (intro frac_le) simp_all
    also have "\<dots> = q ^ (n + 2) / r ^ (n + 4)" using Rpos by simp
    finally have quot: "\<bar>N / fmul dX dY\<bar> \<le> q ^ (n + 2) / r ^ (n + 4)"
      using Plow P by (simp add: abs_divide)
    have "q * \<bar>N / fmul dX dY\<bar> \<le> q * (q ^ (n + 2) / r ^ (n + 4))"
      using quot q(2) by (intro mult_left_mono) simp_all
    also have "\<dots> = q ^ (n + 3) / r ^ (n + 4)" by (simp add: power_add power3_eq_cube power2_eq_square)
    also have "\<dots> \<le> q ^ (n + 4) / r ^ (n + 4)"
      using q(1) h4 by (intro divide_right_mono power_increasing) simp_all
    also have "\<dots> = roundingBound n" by (simp add: roundingBound_def q_def r_def power_divide)
    finally have one: "(1 + unitRoundoff) * \<bar>N / fmul dX dY\<bar> \<le> roundingBound n"
      by (simp add: q_def)
    have "minNormal \<le> 1" by (simp add: minNormal_def)
    with roundingBound_ge_one [of n] have two: "minNormal \<le> roundingBound n" by linarith
    from one two have "max ((1 + unitRoundoff) * \<bar>N / fmul dX dY\<bar>) minNormal \<le> roundingBound n"
      by simp
    with rnd_upper [of "N / fmul dX dY"] have "\<bar>fdiv N (fmul dX dY)\<bar> \<le> roundingBound n"
      unfolding fdiv_def by linarith
    then show ?thesis using False by (simp add: corr n_def)
  qed
qed

lemma roundingBound_le:
  assumes "n < 2 ^ 32"
  shows "roundingBound n \<le> 1 + real (n + 4) / 2 ^ 51"
proof -
  define u where "u = unitRoundoff"
  define m where "m = n + 4"
  have u: "0 < u" "u = 1 / 2 ^ 53" by (simp_all add: u_def unitRoundoff_def)
  have "real n < real (2 ^ 32)" using assms by (simp only: of_nat_less_iff)
  then have m: "real m \<le> 2 ^ 32 + 4" "0 \<le> real m" by (simp_all add: m_def)
  have mu: "real m * u \<le> (2 ^ 32 + 4) * u" using m(1) u(1) by (intro mult_right_mono) simp_all
  have mu9: "9 * (real m * u) \<le> 1" using mu by (simp add: u(2))
  have u3: "3 * u \<le> 1" "u < 1" by (simp_all add: u(2))
  have r0: "0 \<le> (1 + u) / (1 - u)" using u(1) u3(2) by simp
  have "(3 * u) * u \<le> 1 * u" using u3(1) u(1) by (intro mult_right_mono) simp_all
  then have "(1 + u) \<le> (1 + 3 * u) * (1 - u)" by (simp add: algebra_simps)
  then have "(1 + u) / (1 - u) \<le> 1 + 3 * u" using u3(2) by (simp add: divide_le_eq)
  also have "\<dots> \<le> exp (3 * u)" by (rule exp_ge_add_one_self)
  finally have "((1 + u) / (1 - u)) ^ m \<le> exp (3 * u) ^ m" using r0 by (rule power_mono)
  also have "\<dots> = exp (real m * (3 * u))" by (simp only: exp_of_nat_mult)
  also have "\<dots> \<le> 1 + real m * (3 * u) + (real m * (3 * u))\<^sup>2"
    using mu9 u(1) m(2) by (intro exp_bound) (simp_all)
  also have "\<dots> \<le> 1 + 4 * (real m * u)"
  proof -
    have "(real m * (3 * u))\<^sup>2 = (9 * (real m * u)) * (real m * u)"
      by (simp add: power2_eq_square)
    also have "\<dots> \<le> 1 * (real m * u)"
      using mu9 m(2) u(1) by (intro mult_right_mono) simp_all
    finally show ?thesis by (simp add: mult.commute)
  qed
  also have "\<dots> = 1 + real m / 2 ^ 51" by (simp add: u(2))
  finally show ?thesis by (simp add: roundingBound_def u_def m_def)
qed

text \<open>
  A condition on the inputs. Doubles of magnitude at least \<open>2^-340\<close> are multiples of
  \<open>2^-392\<close>, and sums and differences of multiples of a power of two are such multiples,
  before and after rounding.
\<close>

lemma onGrid_zero: "onGrid k 0"
  unfolding onGrid_def by (rule exI [of _ 0]) simp

lemma onGrid_add:
  assumes "onGrid k a" "onGrid k b"
  shows "onGrid k (a + b)"
proof -
  from assms obtain m n :: int where "a = of_int m / 2 ^ k" "b = of_int n / 2 ^ k"
    by (auto simp: onGrid_def)
  then have "a + b = of_int (m + n) / 2 ^ k" by (simp add: add_divide_distrib)
  then show ?thesis unfolding onGrid_def by (rule exI)
qed

lemma onGrid_diff:
  assumes "onGrid k a" "onGrid k b"
  shows "onGrid k (a - b)"
proof -
  from assms obtain m n :: int where "a = of_int m / 2 ^ k" "b = of_int n / 2 ^ k"
    by (auto simp: onGrid_def)
  then have "a - b = of_int (m - n) / 2 ^ k" by (simp add: diff_divide_distrib)
  then show ?thesis unfolding onGrid_def by (rule exI)
qed

lemma onGrid_finer:
  assumes "onGrid k a" "k \<le> l"
  shows "onGrid l a"
proof -
  from assms(1) obtain m :: int where m: "a = of_int m / 2 ^ k" by (auto simp: onGrid_def)
  have "(2::real) ^ l = 2 ^ k * 2 ^ (l - k)" using assms(2) by (simp add: power_add [symmetric])
  then have "a = of_int (m * 2 ^ (l - k)) / 2 ^ l" by (simp add: m)
  then show ?thesis unfolding onGrid_def by (rule exI)
qed

lemma onGrid_nonzero:
  assumes "onGrid k a" "a \<noteq> 0"
  shows "1 / 2 ^ k \<le> \<bar>a\<bar>"
proof -
  from assms(1) obtain m :: int where m: "a = of_int m / 2 ^ k" by (auto simp: onGrid_def)
  with assms(2) have "m \<noteq> 0" by auto
  then have "1 \<le> \<bar>m\<bar>" by simp
  then have "real_of_int 1 \<le> real_of_int \<bar>m\<bar>" by (simp only: of_int_le_iff)
  then have "1 \<le> \<bar>real_of_int m\<bar>" by simp
  then have "1 / 2 ^ k \<le> \<bar>real_of_int m\<bar> / 2 ^ k" by (intro divide_right_mono) simp_all
  then show ?thesis by (simp add: m)
qed

text \<open>The rounding of a number of magnitude at least \<open>2^(52-k)\<close> is a multiple of \<open>2^-k\<close>.\<close>

lemma rnd_onGrid_large:
  assumes n: "minNormal \<le> \<bar>z\<bar>" and l: "2 powr (52 - real k) \<le> \<bar>z\<bar>"
  shows "onGrid k (rnd z)"
proof -
  define e where "e = \<lfloor>log 2 \<bar>z\<bar>\<rfloor>"
  have pos: "0 < \<bar>z\<bar>" using n minNormal_pos by linarith
  have "52 - real k \<le> log 2 \<bar>z\<bar>" using l pos by (simp add: le_log_iff)
  then have ek: "52 - int k \<le> e" unfolding e_def by linarith
  define d where "d = nat (e - 52 + int k)"
  have "int d = e - 52 + int k" using ek by (simp add: d_def)
  then have "real_of_int (int d) = real_of_int (e - 52 + int k)" by (simp only:)
  then have "real_of_int e - 52 = real d - real k" by simp
  then have "(2::real) powr (of_int e - 52) = 2 powr (real d - real k)" by (simp only:)
  also have "\<dots> = 2 ^ d / 2 ^ k" by (simp add: powr_diff powr_realpow)
  finally have u: "(2::real) powr (of_int e - 52) = 2 ^ d / 2 ^ k" .
  have "rnd z = (2 ^ d / 2 ^ k) * of_int (roundEven (z / (2 ^ d / 2 ^ k)))"
    using rnd_normal [OF n] by (simp only: e_def [symmetric] u)
  then have "rnd z = of_int (2 ^ d * roundEven (z / (2 ^ d / 2 ^ k))) / 2 ^ k" by simp
  then show ?thesis unfolding onGrid_def by (rule exI)
qed

text \<open>Rounding keeps a number on a grid of normal doubles.\<close>

lemma rnd_keeps_grid:
  assumes g: "onGrid k z" and k: "53 \<le> k" "k \<le> 1022"
  shows "onGrid k (rnd z)"
proof (cases "z = 0")
  case True
  then show ?thesis by (simp add: rnd_zero onGrid_zero)
next
  case False
  from g obtain m :: int where m: "z = of_int m / 2 ^ k" by (auto simp: onGrid_def)
  have lo: "1 / 2 ^ k \<le> \<bar>z\<bar>" by (rule onGrid_nonzero [OF g False])
  have "minNormal \<le> 1 / 2 ^ k"
    unfolding minNormal_def using k(2) by (intro divide_left_mono power_increasing) simp_all
  with lo have n: "minNormal \<le> \<bar>z\<bar>" by linarith
  show ?thesis
  proof (cases "\<bar>m\<bar> < 2 ^ 53")
    case True
    have "rnd z = z"
      by (rule rnd_exact [where j = k and m = m]) (use True n in \<open>simp_all add: m\<close>)
    with g show ?thesis by simp
  next
    case False
    then have "2 ^ 53 \<le> \<bar>m\<bar>" by simp
    then have "real_of_int (2 ^ 53) \<le> real_of_int \<bar>m\<bar>" by (simp only: of_int_le_iff)
    then have "(2::real) ^ 53 \<le> \<bar>real_of_int m\<bar>" by simp
    then have "(2::real) ^ 53 / 2 ^ k \<le> \<bar>real_of_int m\<bar> / 2 ^ k"
      by (intro divide_right_mono) simp_all
    then have big: "(2::real) ^ 53 / 2 ^ k \<le> \<bar>z\<bar>" by (simp add: m)
    have "(2::real) powr (52 - real k) \<le> 2 powr (53 - real k)" by (intro powr_mono) simp_all
    also have "\<dots> = 2 ^ 53 / 2 ^ k" by (simp add: powr_diff powr_realpow)
    finally have "2 powr (52 - real k) \<le> \<bar>z\<bar>" using big by linarith
    then show ?thesis by (rule rnd_onGrid_large [OF n])
  qed
qed

lemma sum_onGrid:
  assumes "\<forall>v \<in> set xs. onGrid k v" "53 \<le> k" "k \<le> 1022"
  shows "onGrid k (foldl (\<lambda>sum value. fadd sum value) 0 xs)"
  using assms(1)
proof (induction xs rule: rev_induct)
  case Nil
  then show ?case by (simp add: onGrid_zero)
next
  case (snoc v xs)
  then have "onGrid k (foldl (\<lambda>sum value. fadd sum value) 0 xs + v)"
    by (intro onGrid_add) simp_all
  then show ?case by (simp add: fadd_def rnd_keeps_grid [OF _ assms(2,3)])
qed

text \<open>
  For ordinary numbers the sum is a multiple of \<open>2^-392\<close>, the mean a multiple of \<open>2^-476\<close>,
  and so is every difference of an element and the mean: a deviation is 0 or at least
  \<open>2^-477\<close>.
\<close>

lemma ordinary_onGrid:
  assumes "rnd v = v" "v = 0 \<or> 1 / 2 ^ 340 \<le> \<bar>v\<bar>"
  shows "onGrid 392 v"
proof (cases "v = 0")
  case True
  then show ?thesis by (simp add: onGrid_zero)
next
  case False
  with assms(2) have lo: "1 / 2 ^ 340 \<le> \<bar>v\<bar>" by simp
  have "minNormal \<le> 1 / 2 ^ 340" by (simp add: minNormal_def)
  with lo have n: "minNormal \<le> \<bar>v\<bar>" by linarith
  have p: "(2::real) powr (52 - real (392::nat)) = 1 / 2 ^ 340"
    by (simp add: powr_minus inverse_eq_divide)
  have "2 powr (52 - real (392::nat)) \<le> \<bar>v\<bar>" unfolding p by (rule lo)
  from rnd_onGrid_large [OF n this] show ?thesis by (simp add: assms(1))
qed

lemma ordinary_deviations:
  assumes "ordinaryNumbers x"
  shows "withinRange x" "deviationsNormal x"
proof -
  from assms have len: "length x < 2 ^ 32"
    and el: "\<forall>v \<in> set x. rnd v = v \<and> (v = 0 \<or> 1 / 2 ^ 340 \<le> \<bar>v\<bar>) \<and> \<bar>v\<bar> \<le> 2 ^ 480"
    unfolding ordinaryNumbers_def by blast+
  show "withinRange x" unfolding withinRange_def using len el by blast
  have grid: "\<forall>v \<in> set x. onGrid 392 v" using el ordinary_onGrid by blast
  define S where "S = foldl (\<lambda>sum value. fadd sum value) 0 x"
  have S: "onGrid 392 S" unfolding S_def by (rule sum_onGrid [OF grid]) simp_all
  have mean: "onGrid 476 (calculateAverage x)"
  proof (cases "x = []")
    case True
    then show ?thesis by (simp add: calculateAverage_def onGrid_zero)
  next
    case ne: False
    define n where "n = real (length x)"
    have avg: "calculateAverage x = rnd (S / n)"
      using ne by (simp add: calculateAverage_def fdiv_def S_def n_def)
    show ?thesis
    proof (cases "S = 0")
      case True
      then show ?thesis by (simp add: avg rnd_zero onGrid_zero)
    next
      case nz: False
      have "0 < length x" using ne by simp
      then have n1: "1 \<le> n" unfolding n_def by linarith
      have "real (length x) < real (2 ^ 32)" using len by (simp only: of_nat_less_iff)
      then have n32: "n \<le> 2 ^ 32" by (simp add: n_def)
      have lo: "1 / 2 ^ 392 \<le> \<bar>S\<bar>" by (rule onGrid_nonzero [OF S nz])
      have "(1 / 2 ^ 392) / 2 ^ 32 \<le> \<bar>S\<bar> / n"
        using lo n1 n32 by (intro frac_le) simp_all
      moreover have "(1 / 2 ^ 392) / 2 ^ 32 = (1::real) / 2 ^ 424" by simp
      moreover have "\<bar>S\<bar> / n = \<bar>S / n\<bar>" using n1 by simp
      ultimately have q: "1 / 2 ^ 424 \<le> \<bar>S / n\<bar>" by (simp only:)
      have "minNormal \<le> 1 / 2 ^ 424" by (simp add: minNormal_def)
      with q have nrm: "minNormal \<le> \<bar>S / n\<bar>" by linarith
      have p: "(2::real) powr (52 - real (476::nat)) = 1 / 2 ^ 424"
        by (simp add: powr_minus inverse_eq_divide)
      have "2 powr (52 - real (476::nat)) \<le> \<bar>S / n\<bar>" unfolding p by (rule q)
      from rnd_onGrid_large [OF nrm this] show ?thesis by (simp only: avg)
    qed
  qed
  have dev: "fsub v (calculateAverage x) = 0 \<or> 1 / 2 ^ 480 \<le> \<bar>fsub v (calculateAverage x)\<bar>"
    if "v \<in> set x" for v
  proof -
    define z where "z = v - calculateAverage x"
    have "onGrid 392 v" using grid that by blast
    then have "onGrid 476 v" by (rule onGrid_finer) simp
    then have z: "onGrid 476 z" unfolding z_def using mean by (rule onGrid_diff)
    have f: "fsub v (calculateAverage x) = rnd z" by (simp only: fsub_def z_def)
    show ?thesis
    proof (cases "z = 0")
      case True
      then show ?thesis by (simp add: f rnd_zero)
    next
      case False
      have lo: "1 / 2 ^ 476 \<le> \<bar>z\<bar>" by (rule onGrid_nonzero [OF z False])
      have "minNormal \<le> 1 / 2 ^ 476" by (simp add: minNormal_def)
      with lo have "minNormal \<le> \<bar>z\<bar>" by linarith
      then have "\<bar>rnd z - z\<bar> \<le> unitRoundoff * \<bar>z\<bar>" by (intro rnd_relative_error) simp
      moreover have "unitRoundoff * \<bar>z\<bar> \<le> (1/2) * \<bar>z\<bar>"
        using unitRoundoff_bounds by (intro mult_right_mono) simp_all
      ultimately have "(1/2) * \<bar>z\<bar> \<le> \<bar>rnd z\<bar>" by linarith
      moreover have "(1::real) / 2 ^ 480 \<le> (1/2) * (1 / 2 ^ 476)" by simp
      ultimately have "1 / 2 ^ 480 \<le> \<bar>rnd z\<bar>" using lo by linarith
      then show ?thesis by (simp only: f) simp
    qed
  qed
  show "deviationsNormal x" unfolding deviationsNormal_def using dev by blast
qed

text \<open>
  The correlation of the series 0, 3 with itself. The mean is 1.5 and both sums of
  squares are 4.5, all exact. The square root of 4.5 rounds to 2.1213203435596424, whose
  square rounds to 4.499999999999999, and 4.5 divided by that rounds to
  1.0000000000000002.
\<close>

lemma exact_steps_0_3:
  "fadd 0 0 = 0" "fadd 0 3 = 3" "fadd 3 0 = 3" "fdiv 3 2 = 3/2"
  "fsub 0 (3/2) = - (3/2)" "fsub 3 (3/2) = 3/2"
  "fmul (- (3/2)) (- (3/2)) = 9/4" "fmul (3/2) (3/2) = 9/4"
  "fsquare (- (3/2)) = 9/4" "fsquare (3/2) = 9/4"
  "fadd 0 (9/4) = 9/4" "fadd (9/4) (9/4) = 9/2"
  by (simp_all add: fops rnd_small_values rnd_zero)

lemma sqrt_of_sum_rounded: "rnd (sqrt (9/2)) = 4776788754394329 / 2 ^ 51"
proof -
  have "rnd (sqrt (9/2)) = (1 / 2 ^ 51) * of_int 4776788754394329"
  proof (rule rnd_evalI [where e = 1])
    show "2 powr real_of_int 1 \<le> \<bar>sqrt (9/2)\<bar>"
      by (simp add: real_le_rsqrt)
    show "\<bar>sqrt (9/2)\<bar> < 2 powr (real_of_int 1 + 1)"
      by (simp add: real_less_lsqrt)
    show "1 / 2 ^ 51 = (2::real) powr (real_of_int 1 - 52)"
      by (simp add: powr_minus)
    show "(real_of_int 4776788754394329 - 1 / 2) * (1 / 2 ^ 51) < sqrt (9 / 2)"
      by (rule real_less_rsqrt) (simp add: power2_eq_square)
    show "sqrt (9 / 2) < (real_of_int 4776788754394329 + 1 / 2) * (1 / 2 ^ 51)"
      by (rule real_less_lsqrt) (simp_all add: power2_eq_square)
    show "- 1022 \<le> (1::int)" by simp
  qed
  then show ?thesis by simp
qed

lemma product_of_roots_rounded: "rnd ((4776788754394329 / 2 ^ 51) * (4776788754394329 / 2 ^ 51)) = 5066549580791807 / 2 ^ 50"
proof -
  have "rnd ((4776788754394329 / 2 ^ 51) * (4776788754394329 / 2 ^ 51)) = (1 / 2 ^ 50) * of_int 5066549580791807"
    by (rule rnd_evalI [where e = 2]) (simp_all add: powr_minus)
  then show ?thesis by simp
qed

lemma quotient_rounded: "rnd ((9/2) / (5066549580791807 / 2 ^ 50)) = 4503599627370497 / 2 ^ 52"
proof -
  have "rnd ((9/2) / (5066549580791807 / 2 ^ 50)) = (1 / 2 ^ 52) * of_int 4503599627370497"
    by (rule rnd_evalI [where e = 0]) (simp_all add: powr_minus)
  then show ?thesis by simp
qed

lemma correlation_0_3: "calculateCorrelation [0, 3] [0, 3] = 4503599627370497 / 2 ^ 52"
proof -
  define D :: real where "D = 4776788754394329 / 2 ^ 51"
  define P :: real where "P = 5066549580791807 / 2 ^ 50"
  have s: "fsqrt (9/2) = D"
    unfolding fsqrt_def D_def by (rule sqrt_of_sum_rounded)
  have p: "fmul D D = P"
    unfolding fmul_def D_def P_def by (rule product_of_roots_rounded)
  have q: "fdiv (9/2) P = 4503599627370497 / 2 ^ 52"
    unfolding fdiv_def P_def by (rule quotient_rounded)
  have nz: "D \<noteq> 0" by (simp add: D_def)
  have avg: "calculateAverage [0, 3] = 3/2"
    by (simp add: calculateAverage_def exact_steps_0_3)
  have "calculateCorrelation [0, 3] [0, 3] = fdiv (9/2) (fmul D D)"
    by (simp add: calculateCorrelation_def avg Let_def upt_rec exact_steps_0_3 s nz)
  then show ?thesis by (simp only: p q)
qed

text \<open>
  Claim C6, as amended. For series of equal length \<open>calculateCorrelation\<close> is symmetric.
  When moreover both series are JavaScript arrays of doubles each of which is 0 or has a
  magnitude between \<open>2^-340\<close> and \<open>2^480\<close> (\<open>ordinaryNumbers\<close>), the double that is returned
  lies within \<open>(n + 4) / 2^51\<close> of the interval from -1 to 1, where \<open>n\<close> is the length of
  the series. More generally this holds when the numbers have a magnitude of at most
  \<open>2^480\<close> (\<open>withinRange\<close>, so that nothing overflows) and every deviation from the computed
  mean is 0 or at least \<open>2^-480\<close> in magnitude (\<open>deviationsNormal\<close>, so that no square or
  product of deviations underflows). The result can leave the interval itself by
  rounding, as the counterexample shows.
\<close>

theorem calculateCorrelation_symmetric_bounded_up_to_rounding:
  assumes "length x = length y"
  shows "calculateCorrelation x y = calculateCorrelation y x
       \<and> (ordinaryNumbers x \<and> ordinaryNumbers y
            \<longrightarrow> \<bar>calculateCorrelation x y\<bar> \<le> 1 + real (length x + 4) / 2 ^ 51)
       \<and> (withinRange x \<and> withinRange y \<and> deviationsNormal x \<and> deviationsNormal y
            \<longrightarrow> \<bar>calculateCorrelation x y\<bar> \<le> 1 + real (length x + 4) / 2 ^ 51)"
proof -
  have general: "\<bar>calculateCorrelation x y\<bar> \<le> 1 + real (length x + 4) / 2 ^ 51"
    if r: "withinRange x" and d: "deviationsNormal x" "deviationsNormal y"
  proof -
    from r have len: "length x < 2 ^ 32" by (simp add: withinRange_def)
    have "\<bar>calculateCorrelation x y\<bar> \<le> roundingBound (length x)"
      by (rule correlation_rounding_bound [OF assms len d])
    also have "\<dots> \<le> 1 + real (length x + 4) / 2 ^ 51"
      by (rule roundingBound_le [OF len])
    finally show ?thesis .
  qed
  have "\<bar>calculateCorrelation x y\<bar> \<le> 1 + real (length x + 4) / 2 ^ 51"
    if "ordinaryNumbers x" "ordinaryNumbers y"
    using general ordinary_deviations [OF that(1)] ordinary_deviations(2) [OF that(2)] by blast
  with general correlation_float_symmetric [OF assms] show ?thesis by blast
qed

lemma deviationsNormal_0_3: "deviationsNormal [0, 3]"
proof -
  have avg: "calculateAverage [0, 3] = 3/2" by (simp add: calculateAverage_def exact_steps_0_3)
  show ?thesis by (simp add: deviationsNormal_def avg exact_steps_0_3)
qed

lemma ordinaryNumbers_0_3: "ordinaryNumbers [0, 3]"
  by (simp add: ordinaryNumbers_def rnd_zero rnd_small_values)

theorem calculateCorrelation_symmetric_bounded_up_to_rounding_witness:
  "ordinaryNumbers [0, 3] \<and> withinRange [0, 3] \<and> deviationsNormal [0, 3]
   \<and> calculateCorrelation [0, 3] [0, 3] = 4503599627370497 / 2 ^ 52
   \<and> \<bar>calculateCorrelation [0, 3] [0, 3]\<bar> \<le> 1 + real (length [0, 3 :: real] + 4) / 2 ^ 51"
  using calculateCorrelation_symmetric_bounded_up_to_rounding [of "[0, 3]" "[0, 3]"]
    ordinaryNumbers_0_3 withinRange_small(2) deviationsNormal_0_3 correlation_0_3
  by simp

text \<open>
  Claim C6 as it is stated fails: the correlation of the series 0, 3 with itself is the
  double after 1.
\<close>

theorem calculateCorrelation_bound_counterexample:
  "\<not> (calculateCorrelation [0, 3] [0, 3] = calculateCorrelation [0, 3] [0, 3]
      \<and> - 1 \<le> calculateCorrelation [0, 3] [0, 3] \<and> calculateCorrelation [0, 3] [0, 3] \<le> 1)"
  by (simp add: correlation_0_3)

text \<open>
  Without a condition that excludes underflow the bound fails. The series 0, \<open>38 * 2^-541\<close> and the series
  0, 2 have the exact correlation 1. The deviations of the first are \<open>19 * 2^-541\<close> in
  magnitude; their square \<open>361 * 2^-1082\<close> is 1.41 times the smallest positive double and
  rounds to it, so that the denominator is too small and the result is
  1.1874999999999998.
\<close>

lemma underflow_steps:
  "fadd 0 (19 / 2 ^ 540) = 19 / 2 ^ 540" "fdiv (19 / 2 ^ 540) 2 = 19 / 2 ^ 541"
  "fsub 0 (19 / 2 ^ 541) = - (19 / 2 ^ 541)" "fsub (19 / 2 ^ 540) (19 / 2 ^ 541) = 19 / 2 ^ 541"
  "fmul (- (19 / 2 ^ 541)) (- 1) = 19 / 2 ^ 541" "fmul (19 / 2 ^ 541) 1 = 19 / 2 ^ 541"
  "fadd 0 (19 / 2 ^ 541) = 19 / 2 ^ 541" "fadd (19 / 2 ^ 541) (19 / 2 ^ 541) = 19 / 2 ^ 540"
proof -
  have a: "rnd (19 / 2 ^ 540) = 19 / 2 ^ 540"
    by (rule rnd_exact [where j = 540 and m = 19]) (simp_all add: minNormal_def)
  have b: "rnd (19 / 2 ^ 541) = 19 / 2 ^ 541"
    by (rule rnd_exact [where j = 541 and m = 19]) (simp_all add: minNormal_def)
  have c: "rnd (- (19 / 2 ^ 541)) = - (19 / 2 ^ 541)"
    by (rule rnd_exact [where j = 541 and m = "- 19"]) (simp_all add: minNormal_def)
  show "fadd 0 (19 / 2 ^ 540) = 19 / 2 ^ 540" using a by (simp add: fadd_def)
  show "fdiv (19 / 2 ^ 540) 2 = 19 / 2 ^ 541" using b by (simp add: fdiv_def)
  show "fsub 0 (19 / 2 ^ 541) = - (19 / 2 ^ 541)" using c by (simp add: fsub_def)
  show "fsub (19 / 2 ^ 540) (19 / 2 ^ 541) = 19 / 2 ^ 541" using b by (simp add: fsub_def)
  show "fmul (- (19 / 2 ^ 541)) (- 1) = 19 / 2 ^ 541" using b by (simp add: fmul_def)
  show "fmul (19 / 2 ^ 541) 1 = 19 / 2 ^ 541" using b by (simp add: fmul_def)
  show "fadd 0 (19 / 2 ^ 541) = 19 / 2 ^ 541" using b by (simp add: fadd_def)
  show "fadd (19 / 2 ^ 541) (19 / 2 ^ 541) = 19 / 2 ^ 540" using a by (simp add: fadd_def)
qed

lemma underflow_squares:
  "fsquare (- (19 / 2 ^ 541)) = 1 / 2 ^ 1074" "fsquare (19 / 2 ^ 541) = 1 / 2 ^ 1074"
  "fadd 0 (1 / 2 ^ 1074) = 1 / 2 ^ 1074" "fadd (1 / 2 ^ 1074) (1 / 2 ^ 1074) = 1 / 2 ^ 1073"
proof -
  have r: "roundEven (361 / 256) = 1" by (rule roundEven_eqI) simp_all
  have "\<bar>361 / 2 ^ 1082 :: real\<bar> < minNormal" by (simp add: minNormal_def)
  from rnd_subnormal [OF this] have sq: "rnd (361 / 2 ^ 1082) = 1 / 2 ^ 1074"
    using r by simp
  show "fsquare (- (19 / 2 ^ 541)) = 1 / 2 ^ 1074" using sq by (simp add: fsquare_def)
  show "fsquare (19 / 2 ^ 541) = 1 / 2 ^ 1074" using sq by (simp add: fsquare_def)
  have "\<bar>1 / 2 ^ 1074 :: real\<bar> < minNormal" by (simp add: minNormal_def)
  from rnd_subnormal [OF this] have "rnd (1 / 2 ^ 1074) = 1 / 2 ^ 1074"
    using roundEven_of_int [of 1] by simp
  then show "fadd 0 (1 / 2 ^ 1074) = 1 / 2 ^ 1074" by (simp add: fadd_def)
  have "\<bar>1 / 2 ^ 1073 :: real\<bar> < minNormal" by (simp add: minNormal_def)
  from rnd_subnormal [OF this] have "rnd (1 / 2 ^ 1073) = 1 / 2 ^ 1073"
    using roundEven_of_int [of 2] by simp
  then show "fadd (1 / 2 ^ 1074) (1 / 2 ^ 1074) = 1 / 2 ^ 1073" by (simp add: fadd_def)
qed

lemma unit_steps:
  "fadd 0 2 = 2" "fdiv 2 2 = 1" "fsub 0 1 = - 1" "fsub 2 1 = 1"
  "fsquare (- 1) = 1" "fsquare 1 = 1" "fadd 0 1 = 1" "fadd 1 1 = 2"
proof -
  have "rnd (- 1) = - 1"
    by (rule rnd_exact [where j = 0 and m = "- 1"]) (simp_all add: minNormal_def)
  then show "fadd 0 2 = 2" "fdiv 2 2 = 1" "fsub 0 1 = - 1" "fsub 2 1 = 1"
    "fsquare (- 1) = 1" "fsquare 1 = 1" "fadd 0 1 = 1" "fadd 1 1 = 2"
    by (simp_all add: fops rnd_small_values)
qed

lemma underflow_roots:
  "fsqrt (1 / 2 ^ 1073) = 6369051672525773 / 2 ^ 589" "fsqrt 2 = 6369051672525773 / 2 ^ 52"
proof -
  have pos: "0 \<le> sqrt (1 / 2 ^ 1073 :: real)" by simp
  have lo: "1 / 2 ^ 537 \<le> sqrt (1 / 2 ^ 1073 :: real)"
    by (rule real_le_rsqrt) (simp add: power2_eq_square)
  have hi: "sqrt (1 / 2 ^ 1073 :: real) < 1 / 2 ^ 536"
    by (rule real_less_lsqrt) (simp_all add: power2_eq_square)
  have "rnd (sqrt (1 / 2 ^ 1073)) = (1 / 2 ^ 589) * of_int 6369051672525773"
  proof (rule rnd_evalI [where e = "- 537"])
    have "(2::real) powr real_of_int (- 537) = 1 / 2 ^ 537" by (simp add: powr_minus)
    with lo pos show "2 powr real_of_int (- 537) \<le> \<bar>sqrt (1 / 2 ^ 1073)\<bar>"
      by (simp only: abs_of_nonneg)
    have "(2::real) powr (real_of_int (- 537) + 1) = 1 / 2 ^ 536" by (simp add: powr_minus)
    with hi pos show "\<bar>sqrt (1 / 2 ^ 1073)\<bar> < 2 powr (real_of_int (- 537) + 1)"
      by (simp only: abs_of_nonneg)
    show "1 / 2 ^ 589 = (2::real) powr (real_of_int (- 537) - 52)"
      by (simp add: powr_minus)
    show "(real_of_int 6369051672525773 - 1 / 2) * (1 / 2 ^ 589) < sqrt (1 / 2 ^ 1073)"
      by (rule real_less_rsqrt) (simp add: power2_eq_square)
    show "sqrt (1 / 2 ^ 1073) < (real_of_int 6369051672525773 + 1 / 2) * (1 / 2 ^ 589)"
      by (rule real_less_lsqrt) (simp_all add: power2_eq_square)
    show "- 1022 \<le> (- 537 :: int)" by simp
  qed
  then show "fsqrt (1 / 2 ^ 1073) = 6369051672525773 / 2 ^ 589" unfolding fsqrt_def by simp
  have "rnd (sqrt 2) = (1 / 2 ^ 52) * of_int 6369051672525773"
  proof (rule rnd_evalI [where e = 0])
    show "2 powr real_of_int 0 \<le> \<bar>sqrt 2\<bar>" by simp
    show "\<bar>sqrt 2\<bar> < 2 powr (real_of_int 0 + 1)" by (simp add: real_less_lsqrt)
    show "1 / 2 ^ 52 = (2::real) powr (real_of_int 0 - 52)" by (simp add: powr_minus)
    show "(real_of_int 6369051672525773 - 1 / 2) * (1 / 2 ^ 52) < sqrt 2"
      by (rule real_less_rsqrt) (simp add: power2_eq_square)
    show "sqrt 2 < (real_of_int 6369051672525773 + 1 / 2) * (1 / 2 ^ 52)"
      by (rule real_less_lsqrt) (simp_all add: power2_eq_square)
    show "- 1022 \<le> (0 :: int)" by simp
  qed
  then show "fsqrt 2 = 6369051672525773 / 2 ^ 52" unfolding fsqrt_def by simp
qed

lemma underflow_product:
  "fmul (6369051672525773 / 2 ^ 589) (6369051672525773 / 2 ^ 52) = 4503599627370497 / 2 ^ 588"
proof -
  have "rnd ((6369051672525773 / 2 ^ 589) * (6369051672525773 / 2 ^ 52))
      = (1 / 2 ^ 588) * of_int 4503599627370497"
    by (rule rnd_evalI [where e = "- 536"]) (simp_all add: powr_minus)
  then show ?thesis unfolding fmul_def by simp
qed

lemma underflow_quotient:
  "fdiv (19 / 2 ^ 540) (4503599627370497 / 2 ^ 588) = 5348024557502463 / 2 ^ 52"
proof -
  have "rnd ((19 / 2 ^ 540) / (4503599627370497 / 2 ^ 588)) = (1 / 2 ^ 52) * of_int 5348024557502463"
    by (rule rnd_evalI [where e = 0]) (simp_all add: powr_minus)
  then show ?thesis unfolding fdiv_def by simp
qed

lemma correlation_underflow:
  "calculateCorrelation [0, 19 / 2 ^ 540] [0, 2] = 5348024557502463 / 2 ^ 52"
proof -
  define t :: real where "t = 19 / 2 ^ 540"
  define a :: real where "a = 19 / 2 ^ 541"
  define q :: real where "q = 1 / 2 ^ 1074"
  define q2 :: real where "q2 = 1 / 2 ^ 1073"
  define D :: real where "D = 6369051672525773 / 2 ^ 589"
  define E :: real where "E = 6369051672525773 / 2 ^ 52"
  have st: "fadd 0 t = t" "fdiv t 2 = a" "fsub 0 a = - a" "fsub t a = a"
    "fmul (- a) (- 1) = a" "fmul a 1 = a" "fadd 0 a = a" "fadd a a = t"
    by (simp_all only: t_def a_def underflow_steps)
  have sq: "fsquare (- a) = q" "fsquare a = q" "fadd 0 q = q" "fadd q q = q2"
    by (simp_all only: a_def q_def q2_def underflow_squares)
  have rt: "fsqrt q2 = D" "fsqrt 2 = E" by (simp_all only: q2_def D_def E_def underflow_roots)
  have nz: "D \<noteq> 0" "E \<noteq> 0" by (simp_all add: D_def E_def)
  have avx: "calculateAverage [0, t] = a"
    by (simp add: calculateAverage_def st exact_steps_0_3(1))
  have avy: "calculateAverage [0, 2] = 1"
    by (simp add: calculateAverage_def unit_steps exact_steps_0_3(1))
  have "calculateCorrelation [0, t] [0, 2] = fdiv t (fmul D E)"
    by (simp add: calculateCorrelation_def avx avy Let_def upt_rec st sq rt nz unit_steps)
  then show ?thesis by (simp only: t_def D_def E_def underflow_product underflow_quotient)
qed

lemma correlation_underflow_exceeds: "9 / 8 < calculateCorrelation [0, 19 / 2 ^ 540] [0, 2]"
  unfolding correlation_underflow by simp

section \<open>Properties of the statistic views\<close>

text \<open>
  Claim C4. For every list of students and every list of subjects, the entries of
  \<open>getDistributionStats\<close> carry, subject by subject, the same average, pass percentage and
  five counts as the entries of \<open>getSubjectAnalysis\<close>, while their standard deviation,
  coefficient of variation and mode are 0 and their comparison is the empty string.
\<close>

theorem getDistributionStats_agrees_with_getSubjectAnalysis:
  "map (\<lambda>d. (subject d, average d, passPercentage d, countAbove15 d, count10to14 d,
              count8to9 d, countBelow8 d, countAbove10 d))
       (getDistributionStats sts subjs)
     = map (\<lambda>a. (subject a, average a, passPercentage a, countAbove15 a, count10to14 a,
              count8to9 a, countBelow8 a, countAbove10 a))
       (getSubjectAnalysis sts subjs)
   \<and> map subject (getDistributionStats sts subjs) = subjs
   \<and> map (\<lambda>d. (stdDev d, cv d, mode d, comparison d)) (getDistributionStats sts subjs)
     = replicate (length subjs) (0, 0, 0, [])"
  by (simp add: getDistributionStats_def getSubjectAnalysis_def Let_def map_replicate_const comp_def)

lemma filter_split_less:
  assumes "x \<in> set xs" "R x" "\<not> P x" "\<not> Q x" "\<And>y. \<not> (P y \<and> Q y)"
  shows "length (filter (\<lambda>y. R y \<and> P y) xs) + length (filter (\<lambda>y. R y \<and> Q y) xs) < length (filter R xs)"
  using assms(1)
proof (induction xs)
  case Nil then show ?case by simp
next
  case (Cons a xs)
  have le: "length (filter (\<lambda>y. R y \<and> P y) ys) + length (filter (\<lambda>y. R y \<and> Q y) ys) \<le> length (filter R ys)" for ys
    using assms(5) by (induction ys) auto
  show ?case
  proof (cases "x = a")
    case True
    then show ?thesis using assms(2,3,4) le [of xs] by simp
  next
    case False
    with Cons have "length (filter (\<lambda>y. R y \<and> P y) xs) + length (filter (\<lambda>y. R y \<and> Q y) xs) < length (filter R xs)"
      by simp
    then show ?thesis using assms(5) [of a] by auto
  qed
qed


lemma nonFemale_count:
  "length sts - length (filter (\<lambda>s. gender s = Text femaleLabel) sts)
     = length (filter (\<lambda>s. gender s \<noteq> Text femaleLabel) sts)"
  using sum_length_filter_compl [of "\<lambda>s. gender s = Text femaleLabel" sts] by simp

lemma maleSuccessRate_denominator:
  "maleSuccessRate (getCategoryGlobalStats sts) =
     (if length (filter (\<lambda>s. gender s \<noteq> Text femaleLabel) sts) = 0 then 0
      else fmul (fdiv (real (length (filter (\<lambda>s. semesterAverage s \<ge> 10 \<and> gender s = Text maleLabel) sts)))
                      (real (length (filter (\<lambda>s. gender s \<noteq> Text femaleLabel) sts)))) 100)"
  unfolding getCategoryGlobalStats_def Let_def globalStats.select_convs nonFemale_count
  by (simp only: if_not_P if_P split: if_splits) blast

lemma successful_gap:
  assumes "s \<in> set sts" "semesterAverage s \<ge> 10" "gender s \<noteq> Text femaleLabel" "gender s \<noteq> Text maleLabel"
  shows "successfulFemales (getCategoryGlobalStats sts) + successfulMales (getCategoryGlobalStats sts)
       < successfulStudents (getCategoryGlobalStats sts)"
proof -
  have "femaleLabel \<noteq> maleLabel" by (simp add: femaleLabel_def maleLabel_def)
  then have "\<And>y. \<not> (gender y = Text femaleLabel \<and> gender y = Text maleLabel)" by auto
  from filter_split_less [where R = "\<lambda>s. semesterAverage s \<ge> 10"
      and P = "\<lambda>s. gender s = Text femaleLabel" and Q = "\<lambda>s. gender s = Text maleLabel",
      OF assms(1,2,3,4) this]
  show ?thesis by (simp add: getCategoryGlobalStats_def Let_def)
qed

text \<open>
  Claim C10. \<open>getCategoryGlobalStats\<close> takes as the number of males the number of
  students minus the number of females, so the denominator of the male success rate
  counts every student whose gender is not the female label, while \<open>successfulMales\<close>
  counts only the students with the male label. Hence, as soon as one student with a
  semester average of at least 10 has neither label, the successful females and males
  together are fewer than the successful students.
\<close>

theorem getCategoryGlobalStats_unrecognized_gender:
  "maleSuccessRate (getCategoryGlobalStats sts) =
     (if length (filter (\<lambda>s. gender s \<noteq> Text femaleLabel) sts) = 0 then 0
      else fmul (fdiv (real (successfulMales (getCategoryGlobalStats sts)))
                      (real (length (filter (\<lambda>s. gender s \<noteq> Text femaleLabel) sts)))) 100)
   \<and> successfulMales (getCategoryGlobalStats sts)
       = length (filter (\<lambda>s. semesterAverage s \<ge> 10 \<and> gender s = Text maleLabel) sts)
   \<and> ((\<exists>s \<in> set sts. semesterAverage s \<ge> 10 \<and> gender s \<noteq> Text femaleLabel
                       \<and> gender s \<noteq> Text maleLabel)
        \<longrightarrow> successfulFemales (getCategoryGlobalStats sts)
              + successfulMales (getCategoryGlobalStats sts)
            < successfulStudents (getCategoryGlobalStats sts))"
proof -
  have sm: "successfulMales (getCategoryGlobalStats sts)
       = length (filter (\<lambda>s. semesterAverage s \<ge> 10 \<and> gender s = Text maleLabel) sts)"
    by (simp add: getCategoryGlobalStats_def Let_def)
  show ?thesis
    using maleSuccessRate_denominator [of sts] successful_gap [of _ sts]
    by (simp only: sm) blast
qed

theorem getCategoryGlobalStats_unrecognized_gender_witness:
  "exampleStudent (Text (ascii ''F'')) 12 \<in> set [exampleStudent (Text (ascii ''F'')) 12]
   \<and> semesterAverage (exampleStudent (Text (ascii ''F'')) 12) \<ge> 10
   \<and> gender (exampleStudent (Text (ascii ''F'')) 12) \<noteq> Text femaleLabel
   \<and> gender (exampleStudent (Text (ascii ''F'')) 12) \<noteq> Text maleLabel
   \<and> successfulFemales (getCategoryGlobalStats [exampleStudent (Text (ascii ''F'')) 12])
       + successfulMales (getCategoryGlobalStats [exampleStudent (Text (ascii ''F'')) 12])
     < successfulStudents (getCategoryGlobalStats [exampleStudent (Text (ascii ''F'')) 12])"
proof -
  have h: "semesterAverage (exampleStudent (Text (ascii ''F'')) 12) \<ge> 10
     \<and> gender (exampleStudent (Text (ascii ''F'')) 12) \<noteq> Text femaleLabel
     \<and> gender (exampleStudent (Text (ascii ''F'')) 12) \<noteq> Text maleLabel"
    by (simp add: exampleStudent_def femaleLabel_def maleLabel_def ascii_def)
  then show ?thesis
    using getCategoryGlobalStats_unrecognized_gender [of "[exampleStudent (Text (ascii ''F'')) 12]"]
    by simp
qed

section \<open>Properties of the ingestion\<close>

subsection \<open>Decimal digits\<close>

lemma decimal_digits: "c \<in> set (decimal n) \<Longrightarrow> 0x30 \<le> c \<and> c \<le> 0x39"
proof (induction n arbitrary: c rule: decimal.induct)
  case (1 n)
  show ?case
  proof (cases "n < 10")
    case True
    with "1.prems" show ?thesis by (subst (asm) decimal.simps) simp
  next
    case False
    with "1.prems" have "c \<in> set (decimal (n div 10)) \<or> c = 0x30 + n mod 10"
      by (subst (asm) decimal.simps) auto
    then show ?thesis
    proof
      assume "c \<in> set (decimal (n div 10))"
      with "1.IH" False show ?thesis by simp
    next
      assume "c = 0x30 + n mod 10"
      moreover have "n mod 10 < 10" by simp
      ultimately show ?thesis by linarith
    qed
  qed
qed

lemma decimal_nonempty: "decimal n \<noteq> []"
  by (subst decimal.simps) simp

lemma decimal_inj: "decimal m = decimal n \<Longrightarrow> m = n"
proof (induction m arbitrary: n rule: decimal.induct)
  case (1 m)
  show ?case
  proof (cases "m < 10")
    case True
    then have dm: "decimal m = [0x30 + m]" by (subst decimal.simps) simp
    show ?thesis
    proof (cases "n < 10")
      case True
      then have "decimal n = [0x30 + n]" by (subst decimal.simps) simp
      with dm "1.prems" show ?thesis by simp
    next
      case False
      then have "decimal n = decimal (n div 10) @ [0x30 + n mod 10]" by (subst decimal.simps) simp
      with dm "1.prems" decimal_nonempty [of "n div 10"] show ?thesis
        by (metis append_is_Nil_conv butlast.simps(2) butlast_snoc)
    qed
  next
    case False
    then have dm: "decimal m = decimal (m div 10) @ [0x30 + m mod 10]" by (subst decimal.simps) simp
    show ?thesis
    proof (cases "n < 10")
      case True
      then have "decimal n = [0x30 + n]" by (subst decimal.simps) simp
      with dm "1.prems" decimal_nonempty [of "m div 10"] show ?thesis
        by (metis append_is_Nil_conv butlast.simps(2) butlast_snoc)
    next
      case n: False
      then have dn: "decimal n = decimal (n div 10) @ [0x30 + n mod 10]" by (subst decimal.simps) simp
      from dm dn "1.prems" have "decimal (m div 10) = decimal (n div 10)" "m mod 10 = n mod 10"
        by simp_all
      with "1.IH" [OF False] have "m div 10 = n div 10" "m mod 10 = n mod 10" by simp_all
      then show ?thesis by (metis div_mult_mod_eq)
    qed
  qed
qed

subsection \<open>Trailing-row pruning\<close>

lemma dropWhile_rev_snoc:
  "xs \<noteq> [] \<Longrightarrow> dropWhile Q (rev xs) = (if Q (last xs) then dropWhile Q (rev (butlast xs)) else rev xs)"
  by (cases xs rule: rev_cases) simp_all

lemma popEmptyRows_rev: "popEmptyRows js = rev (dropWhile emptyRow (rev js))"
proof (induction js rule: popEmptyRows.induct)
  case (1 jsonData)
  show ?case
  proof (cases "length jsonData > 0 \<and> emptyRow (last jsonData)")
    case True
    then have ne: "jsonData \<noteq> []" by auto
    from True have "popEmptyRows jsonData = popEmptyRows (butlast jsonData)"
      by (subst popEmptyRows.simps) simp
    also have "\<dots> = rev (dropWhile emptyRow (rev (butlast jsonData)))"
      using "1.IH" True by simp
    also have "\<dots> = rev (dropWhile emptyRow (rev jsonData))"
      using True by (simp add: dropWhile_rev_snoc [OF ne])
    finally show ?thesis .
  next
    case False
    then have p: "popEmptyRows jsonData = jsonData"
      by (subst popEmptyRows.simps) auto
    show ?thesis
    proof (cases "jsonData = []")
      case True
      then show ?thesis using p by simp
    next
      case ne: False
      with False show ?thesis
        by (simp add: p dropWhile_rev_snoc [OF ne])
    qed
  qed
qed

lemma rowsFromHeader_rev:
  "rowsFromHeader P g = rev (dropWhile emptyRow (rev (drop (headerRowIndex P g) g)))"
  by (simp add: rowsFromHeader_def popEmptyRows_rev)

lemma rowsFromHeader_Nil_iff:
  "rowsFromHeader P g = [] \<longleftrightarrow> (\<forall>r \<in> set (drop (headerRowIndex P g) g). emptyRow r)"
  by (simp add: rowsFromHeader_rev dropWhile_eq_Nil_conv)



lemma pruneRows_cases:
  "pruneRows P g = (if length (rowsFromHeader P g) > 1 then butlast (rowsFromHeader P g)
                    else rowsFromHeader P g)"
  by (simp add: pruneRows_def popSummaryRow_def Let_def)

lemma pruneRows_Nil_iff: "pruneRows P g = [] \<longleftrightarrow> rowsFromHeader P g = []"
  by (cases "rowsFromHeader P g" rule: rev_cases) (auto simp: pruneRows_cases)

subsection \<open>The parser\<close>

lemma parseSheet_InsufficientData_iff:
  "parseSheet P g = Inl InsufficientData \<longleftrightarrow> g \<noteq> [] \<and> pruneRows P g = []"
  by (auto simp: parseSheet_def Let_def)

lemma parseSheet_Inr:
  assumes "parseSheet P g = Inr res"
  shows "g \<noteq> []" "pruneRows P g \<noteq> []" "length (pruneRows P g ! 0) \<ge> 3"
    "resStudents res = buildStudents P (extractMetadata P g) (candidateSubjects (pruneRows P g ! 0))
        (drop 1 (pruneRows P g))"
    "resMetadata res = extractMetadata P g"
  using assms by (auto simp: parseSheet_def Let_def split: if_splits)

lemma parseSheet_header_only:
  assumes "g \<noteq> []" "length (pruneRows P g) = 1" "length (pruneRows P g ! 0) \<ge> 3"
  shows "\<exists>res. parseSheet P g = Inr res \<and> resStudents res = []"
proof -
  from assms(2) have "drop 1 (pruneRows P g) = []" "pruneRows P g \<noteq> []" by auto
  then show ?thesis
    using assms by (simp add: parseSheet_def Let_def buildStudents_def List.map_filter_def)
qed

lemma buildStudents_mem:
  "s \<in> set (buildStudents P md subj rows)
     \<longleftrightarrow> (\<exists>i < length rows. studentOfRow P md subj (rows ! i) i = Some s)"
proof -
  have "set (zip rows [0..<length rows]) = {(rows ! i, i) | i. i < length rows}"
    by (auto simp: set_zip)
  then show ?thesis
    by (auto simp: buildStudents_def List.map_filter_def image_iff)
qed

lemma studentOfRow_Some:
  assumes "studentOfRow P md subj r i = Some s"
  shows "originalRow s = r" "studentId s = ascii ''temp-'' @ decimal i"
    "truthy (cellAt r 1)"
    "semesterAverage s =
       (if length (drop 5 r) > 0
        then (case toNumber P (last (drop 5 r)) of Some numAvg \<Rightarrow> numAvg | None \<Rightarrow> 0) else 0)"
    "grades s = foldl (gradeStep P (drop 5 r)) Map.empty (zip subj [0..<length subj])"
  using assms by (auto simp: studentOfRow_def Let_def split: if_splits)

lemma foldl_gradeStep_index:
  "foldl (gradeStep P gd) m (zip subj [0..<length subj])
     = foldl (\<lambda>acc i. gradeStep P gd acc (subj ! i, i)) m [0..<length subj]"
proof -
  have "zip subj [0..<length subj] = map (\<lambda>i. (subj ! i, i)) [0..<length subj]"
    by (rule nth_equalityI) simp_all
  then show ?thesis by (simp add: foldl_map)
qed

lemma gradeStep_beyond:
  "\<forall>i \<in> set is. length gd \<le> i \<Longrightarrow> foldl (\<lambda>acc i. gradeStep P gd acc (subj ! i, i)) m is = m"
  by (induction "is" arbitrary: m) (simp_all add: gradeStep_def cellAt_def)

lemma grades_last_cell:
  assumes ne: "gd \<noteq> []" and le: "length gd \<le> length subj"
    and v: "toNumber P (last gd) = Some v"
    and present: "subj ! (length gd - 1) \<noteq> Absent"
    and key: "propertyKey P (subj ! (length gd - 1)) \<noteq> ascii ''__proto__''"
  shows "foldl (gradeStep P gd) m (zip subj [0..<length subj]) (propertyKey P (subj ! (length gd - 1)))
       = Some v"
proof -
  define L where "L = length gd - 1"
  have L: "L < length gd" "Suc L = length gd" "L < length subj"
    using ne le by (cases gd; simp add: L_def)+
  have split: "[0..<length subj] = [0..<L] @ L # [Suc L..<length subj]"
    using L(3) by (metis less_imp_le_nat upt_add_eq_append upt_rec le0 le_add_diff_inverse)
  have lastcell: "cellAt gd L = last gd"
    using ne L by (simp add: cellAt_def last_conv_nth L_def)
  define m1 where "m1 = foldl (\<lambda>acc i. gradeStep P gd acc (subj ! i, i)) m [0..<L]"
  have "foldl (gradeStep P gd) m (zip subj [0..<length subj])
      = foldl (\<lambda>acc i. gradeStep P gd acc (subj ! i, i)) (gradeStep P gd m1 (subj ! L, L))
          [Suc L..<length subj]"
    by (subst foldl_gradeStep_index, subst split) (simp add: m1_def)
  also have "\<dots> = gradeStep P gd m1 (subj ! L, L)"
    by (rule gradeStep_beyond) (simp add: L(2) [symmetric])
  also have "\<dots> = m1(propertyKey P (subj ! L) \<mapsto> v)"
    using key [folded L_def] present [folded L_def]
    by (simp add: gradeStep_def lastcell v storeGrade_def)
  finally show ?thesis by (simp add: L_def)
qed

subsection \<open>The example sheets\<close>

lemma example_isHeaderRow: "isHeaderRow examplePlatform exampleHeader"
  by (simp add: isHeaderRow_def examplePlatform_def exampleHeader_def joinCells_def
      keywordIsm_def ascii_def Let_def)

lemma example_headerRowIndex: "headerRowIndex examplePlatform (exampleHeader # rest) = 0"
  by (simp add: headerRowIndex_def example_isHeaderRow)

lemma example_rows_nonempty:
  "\<not> emptyRow exampleHeader" "\<not> emptyRow exampleRowA" "\<not> emptyRow exampleRowB" "emptyRow []"
  by (simp_all add: emptyRow_def exampleHeader_def exampleRowA_def exampleRowB_def ascii_def)

lemma example_rowsFromHeader:
  "rowsFromHeader examplePlatform [exampleHeader, exampleRowA] = [exampleHeader, exampleRowA]"
  "rowsFromHeader examplePlatform [exampleHeader, exampleRowA, exampleRowB, []]
     = [exampleHeader, exampleRowA, exampleRowB]"
  "rowsFromHeader examplePlatform [exampleHeader, exampleRowA, exampleRowB]
     = [exampleHeader, exampleRowA, exampleRowB]"
  by (simp_all add: rowsFromHeader_rev example_headerRowIndex example_rows_nonempty)

lemma example_pruneRows:
  "pruneRows examplePlatform [exampleHeader, exampleRowA] = [exampleHeader]"
  "pruneRows examplePlatform [exampleHeader, exampleRowA, exampleRowB, []]
     = [exampleHeader, exampleRowA]"
  "pruneRows examplePlatform [exampleHeader, exampleRowA, exampleRowB]
     = [exampleHeader, exampleRowA]"
  by (simp_all add: pruneRows_cases example_rowsFromHeader)

lemma example_candidateSubjects:
  "candidateSubjects exampleHeader = [Text (ascii ''math''), Text (ascii ''physics'')]"
  by (simp add: candidateSubjects_def exampleHeader_def)

lemma example_header_length: "length exampleHeader = 8"
  by (simp add: exampleHeader_def)

lemma example_studentA:
  "studentOfRow examplePlatform md [Text (ascii ''math''), Text (ascii ''physics'')] exampleRowA 0
     = Some \<lparr>studentId = ascii ''temp-0'', name = Text (ascii ''Amina''),
             gender = Text femaleLabel,
             grades = [ascii ''math'' \<mapsto> 12, ascii ''physics'' \<mapsto> 9],
             semesterAverage = 9, originalRow = exampleRowA, isRepeater = False,
             sourceClass = Some (classNumber md)\<rparr>"
  by (simp add: studentOfRow_def exampleRowA_def cellAt_def orElse_def Let_def gradeStep_def
      storeGrade_def ascii_def decimal.simps trim_def yesLabel_def femaleLabel_def upt_rec)

lemma example_parse_header_only:
  "parseSheet examplePlatform [exampleHeader, exampleRowA]
     = Inr \<lparr>resStudents = [], resSubjects = [], resMetadata = emptyMetadata\<rparr>"
  by (simp add: parseSheet_def Let_def example_pruneRows example_header_length
      example_candidateSubjects buildStudents_def List.map_filter_def extractMetadata_def)

subsection \<open>Claims about the parser\<close>

text \<open>
  Claim C1, as amended. The parser fails with \<open>InsufficientData\<close> exactly when the sheet
  has rows and no row at all is left after header detection and pruning, the header row
  included; that is, when every row from the detected header row on is empty (every cell
  of it is \<open>undefined\<close>, the empty string or 0). When the header row alone is left and has
  at least three cells, the parser succeeds with an empty list of students.
\<close>

theorem insufficientData_iff_no_row_left:
  "(parseSheet P g = Inl InsufficientData \<longleftrightarrow> g \<noteq> [] \<and> pruneRows P g = [])
   \<and> (pruneRows P g = [] \<longleftrightarrow> (\<forall>r \<in> set (drop (headerRowIndex P g) g). emptyRow r))
   \<and> (g \<noteq> [] \<and> length (pruneRows P g) = 1 \<and> length (pruneRows P g ! 0) \<ge> 3
        \<longrightarrow> (\<exists>res. parseSheet P g = Inr res \<and> resStudents res = []))"
  using parseSheet_InsufficientData_iff [of P g] pruneRows_Nil_iff [of P g]
    rowsFromHeader_Nil_iff [of P g] parseSheet_header_only [of g P]
  by blast

theorem insufficientData_iff_no_row_left_witness:
  "[[Absent, Text []], []] \<noteq> ([] :: grid)
   \<and> parseSheet examplePlatform [[Absent, Text []], []] = Inl InsufficientData
   \<and> length (pruneRows examplePlatform [exampleHeader, exampleRowA]) = 1
   \<and> length (pruneRows examplePlatform [exampleHeader, exampleRowA] ! 0) \<ge> 3
   \<and> (\<exists>res. parseSheet examplePlatform [exampleHeader, exampleRowA] = Inr res
          \<and> resStudents res = [])"
proof -
  have "\<forall>r \<in> set (drop (headerRowIndex examplePlatform [[Absent, Text []], []])
                      [[Absent, Text []], []]). emptyRow r"
    by (auto simp: emptyRow_def dest!: in_set_dropD)
  then have "parseSheet examplePlatform [[Absent, Text []], []] = Inl InsufficientData"
    using insufficientData_iff_no_row_left [of examplePlatform "[[Absent, Text []], []]"]
    by simp
  moreover have "\<exists>res. parseSheet examplePlatform [exampleHeader, exampleRowA] = Inr res
          \<and> resStudents res = []"
    using insufficientData_iff_no_row_left [of examplePlatform "[exampleHeader, exampleRowA]"]
    by (simp add: example_pruneRows example_header_length)
  ultimately show ?thesis
    by (simp add: example_pruneRows example_header_length)
qed

text \<open>
  Claim C1 as it is stated fails: in the sheet of a header row followed by one student row,
  the student row is removed as the summary row, no data row is left below the header, and
  the parser succeeds with an empty list of students.
\<close>

theorem insufficientData_counterexample:
  "drop 1 (pruneRows examplePlatform [exampleHeader, exampleRowA]) = []
   \<and> parseSheet examplePlatform [exampleHeader, exampleRowA] \<noteq> Inl InsufficientData
   \<and> parseSheet examplePlatform [exampleHeader, exampleRowA]
       = Inr \<lparr>resStudents = [], resSubjects = [], resMetadata = emptyMetadata\<rparr>"
  by (simp add: example_pruneRows example_parse_header_only)


lemma example_parse_A:
  assumes "pruneRows examplePlatform g = [exampleHeader, exampleRowA]"
    and "parseSheet examplePlatform g = Inr res"
  shows "map studentId (resStudents res) = [ascii ''temp-0'']"
    "map semesterAverage (resStudents res) = [9]"
    "map (\<lambda>s. grades s (ascii ''physics'')) (resStudents res) = [Some 9]"
    "map originalRow (resStudents res) = [exampleRowA]"
  using assms(2)
  by (auto simp add: parseSheet_def Let_def assms(1) example_header_length
      example_candidateSubjects buildStudents_def List.map_filter_def example_studentA
      split: if_splits)

lemma example_parse_A_ok:
  assumes "pruneRows examplePlatform g = [exampleHeader, exampleRowA]"
  shows "\<exists>res. parseSheet examplePlatform g = Inr res"
proof -
  from assms have "g \<noteq> []"
    by (auto simp: pruneRows_def rowsFromHeader_def popSummaryRow_def popEmptyRows.simps)
  then show ?thesis
    by (simp add: parseSheet_def Let_def assms example_header_length)
qed


text \<open>
  Claim C9, as amended. For every student of a successful result whose row has a cell
  from column 5 on, the semester average is the coercion of the last cell of the row (0
  when it is not a number), wherever that cell stands. When the row has no more such cells
  than there are candidate subjects, that last cell is also the grade cell of a candidate
  subject. If the header cell of that subject is not empty (\<open>forEach\<close> passes over an
  empty header cell and stores no grade for it) and the last cell coerces to a number,
  the number is stored both as the grade of that subject and as the semester average (the
  subject's name being an ordinary property name, not \<open>__proto__\<close>).
\<close>

theorem semesterAverage_from_last_grade_cell:
  assumes "parseSheet P g = Inr res" and "s \<in> set (resStudents res)"
    and "drop 5 (originalRow s) \<noteq> []"
  shows
    "let gradesData = drop 5 (originalRow s);
         subjects = candidateSubjects (pruneRows P g ! 0);
         key = propertyKey P (subjects ! (length gradesData - 1))
     in semesterAverage s = (case toNumber P (last gradesData) of Some v \<Rightarrow> v | None \<Rightarrow> 0)
        \<and> (length gradesData \<le> length subjects
             \<and> subjects ! (length gradesData - 1) \<noteq> Absent \<longrightarrow>
             (\<forall>v. toNumber P (last gradesData) = Some v \<and> key \<noteq> ascii ''__proto__''
                \<longrightarrow> grades s key = Some v \<and> semesterAverage s = v))"
proof -
  from assms(2) parseSheet_Inr(4) [OF assms(1)] obtain j where
    st: "studentOfRow P (extractMetadata P g) (candidateSubjects (pruneRows P g ! 0))
           (drop 1 (pruneRows P g) ! j) j = Some s"
    by (auto simp: buildStudents_mem)
  define r where "r = drop 1 (pruneRows P g) ! j"
  have row: "originalRow s = r"
    using studentOfRow_Some(1) [OF st] by (simp add: r_def)
  have avg: "semesterAverage s
      = (case toNumber P (last (drop 5 r)) of Some v \<Rightarrow> v | None \<Rightarrow> 0)"
    using studentOfRow_Some(4) [OF st] assms(3) row by (simp add: r_def)
  have gr: "grades s = foldl (gradeStep P (drop 5 r)) Map.empty
      (zip (candidateSubjects (pruneRows P g ! 0))
         [0..<length (candidateSubjects (pruneRows P g ! 0))])"
    using studentOfRow_Some(5) [OF st] by (simp add: r_def)
  have "grades s (propertyKey P (candidateSubjects (pruneRows P g ! 0) ! (length (drop 5 r) - 1)))
      = Some v \<and> semesterAverage s = v"
    if "length (drop 5 r) \<le> length (candidateSubjects (pruneRows P g ! 0))"
      and "toNumber P (last (drop 5 r)) = Some v"
      and "candidateSubjects (pruneRows P g ! 0) ! (length (drop 5 r) - 1) \<noteq> Absent"
      and "propertyKey P (candidateSubjects (pruneRows P g ! 0) ! (length (drop 5 r) - 1))
             \<noteq> ascii ''__proto__''" for v
    using grades_last_cell [OF _ that(1,2,3,4), of Map.empty] assms(3) row that(2)
    by (simp add: gr avg)
  with avg show ?thesis
    unfolding Let_def row by blast
qed

theorem semesterAverage_from_last_grade_cell_witness:
  "\<exists>res s. parseSheet examplePlatform [exampleHeader, exampleRowA, exampleRowB] = Inr res
     \<and> resStudents res = [s]
     \<and> drop 5 (originalRow s) = [Num 12, Num 9]
     \<and> candidateSubjects (pruneRows examplePlatform [exampleHeader, exampleRowA, exampleRowB] ! 0)
         = [Text (ascii ''math''), Text (ascii ''physics'')]
     \<and> grades s (ascii ''physics'') = Some 9
     \<and> semesterAverage s = 9"
proof -
  let ?g = "[exampleHeader, exampleRowA, exampleRowB]"
  from example_parse_A_ok [OF example_pruneRows(3)] obtain res where
    res: "parseSheet examplePlatform ?g = Inr res"
    by blast
  from example_parse_A(4) [OF example_pruneRows(3) res] obtain s where
    s: "resStudents res = [s]" "originalRow s = exampleRowA"
    by auto
  have gd: "drop 5 (originalRow s) = [Num 12, Num 9]"
    by (simp add: s(2) exampleRowA_def)
  have subj: "candidateSubjects (pruneRows examplePlatform ?g ! 0)
         = [Text (ascii ''math''), Text (ascii ''physics'')]"
    by (simp add: example_pruneRows example_candidateSubjects)
  have "ascii ''physics'' \<noteq> ascii ''__proto__''"
    by (simp add: ascii_def)
  with semesterAverage_from_last_grade_cell [OF res, of s] gd subj
  have "grades s (ascii ''physics'') = Some 9 \<and> semesterAverage s = 9"
    by (simp add: s(1) Let_def)
  with res s(1) gd subj show ?thesis by blast
qed

text \<open>
  An empty header cell among the subject columns. \<open>forEach\<close> passes over the hole: the
  row stores the grade of the first subject only, its last cell gives the semester
  average alone, and the active subjects hold no hole.
\<close>

lemma header_gap_subjects:
  "candidateSubjects exampleHeaderGap = [Text (ascii ''math''), Absent]"
  by (simp add: candidateSubjects_def exampleHeaderGap_def)

lemma header_gap_student:
  "studentOfRow examplePlatform md [Text (ascii ''math''), Absent] exampleRowGap 0
     = Some (exampleStudentGap\<lparr>sourceClass := Some (classNumber md)\<rparr>)"
  by (simp add: studentOfRow_def exampleRowGap_def exampleStudentGap_def cellAt_def orElse_def
      Let_def gradeStep_def storeGrade_def ascii_def decimal.simps trim_def yesLabel_def
      femaleLabel_def upt_rec)

lemma header_gap_pruneRows: "pruneRows examplePlatform exampleSheetGap = [exampleHeaderGap, exampleRowGap]"
proof -
  have h: "isHeaderRow examplePlatform exampleHeaderGap"
    by (simp add: isHeaderRow_def examplePlatform_def exampleHeaderGap_def joinCells_def
        keywordIsm_def ascii_def Let_def)
  have i: "headerRowIndex examplePlatform exampleSheetGap = 0"
    by (simp add: headerRowIndex_def exampleSheetGap_def h)
  have e: "\<not> emptyRow exampleRowB" by (rule example_rows_nonempty)
  have "rowsFromHeader examplePlatform exampleSheetGap = exampleSheetGap"
    using i e by (simp add: rowsFromHeader_rev exampleSheetGap_def)
  then show ?thesis by (simp add: pruneRows_cases exampleSheetGap_def)
qed

lemma header_gap_classNumber: "classNumber (extractMetadata examplePlatform exampleSheetGap) = []"
  by (simp add: extractMetadata_def exampleSheetGap_def emptyMetadata_def Let_def)

lemma header_gap_parse:
  "parseSheet examplePlatform exampleSheetGap
     = Inr \<lparr>resStudents = [exampleStudentGap], resSubjects = [Text (ascii ''math'')],
            resMetadata = extractMetadata examplePlatform exampleSheetGap\<rparr>"
proof -
  have l: "length exampleHeaderGap = 8" by (simp add: exampleHeaderGap_def)
  have n: "exampleSheetGap \<noteq> []" by (simp add: exampleSheetGap_def)
  have s: "exampleStudentGap\<lparr>sourceClass := Some []\<rparr> = exampleStudentGap"
    by (simp add: exampleStudentGap_def)
  have p: "hasPositiveGrade examplePlatform (Text (ascii ''math'')) exampleStudentGap"
    by (simp add: hasPositiveGrade_def exampleStudentGap_def)
  show ?thesis
    using n
    by (simp add: parseSheet_def Let_def header_gap_pruneRows l header_gap_subjects
        buildStudents_def List.map_filter_def header_gap_student header_gap_classNumber s p)
qed

text \<open>
  Claim C9 as it is stated fails: under a header row whose second subject column has no
  name, the row with the grade cells 12 and 7 has no more grade cells than there are
  candidate subjects, and its semester average is 7, but 7 is stored as the grade of no
  subject.
\<close>

theorem header_gap_counterexample:
  "parseSheet examplePlatform exampleSheetGap
     = Inr \<lparr>resStudents = [exampleStudentGap], resSubjects = [Text (ascii ''math'')],
            resMetadata = extractMetadata examplePlatform exampleSheetGap\<rparr>
   \<and> originalRow exampleStudentGap = exampleRowGap
   \<and> drop 5 exampleRowGap = [Num 12, Num 7]
   \<and> candidateSubjects (pruneRows examplePlatform exampleSheetGap ! 0)
       = [Text (ascii ''math''), Absent]
   \<and> semesterAverage exampleStudentGap = 7
   \<and> 7 \<notin> ran (grades exampleStudentGap)"
  by (simp add: header_gap_parse header_gap_pruneRows header_gap_subjects)
     (simp add: exampleStudentGap_def exampleRowGap_def)

text \<open>
  The two other conditions of the amended claim are needed as well: a last cell that is
  not a number is stored as no grade and gives the semester average 0, and a subject
  called \<open>__proto__\<close> stores no grade.
\<close>

lemma text_cell_student:
  "studentOfRow examplePlatform md [Text (ascii ''math'')]
       [Num 1, Text (ascii ''Amina''), Absent, Text femaleLabel, Absent, Text (ascii ''abs'')] 0
     = Some \<lparr>studentId = ascii ''temp-0'', name = Text (ascii ''Amina''),
             gender = Text femaleLabel, grades = Map.empty, semesterAverage = 0,
             originalRow = [Num 1, Text (ascii ''Amina''), Absent, Text femaleLabel, Absent,
                            Text (ascii ''abs'')],
             isRepeater = False, sourceClass = Some (classNumber md)\<rparr>"
  by (simp add: studentOfRow_def cellAt_def orElse_def Let_def gradeStep_def examplePlatform_def
      storeGrade_def ascii_def decimal.simps trim_def yesLabel_def femaleLabel_def upt_rec)

lemma proto_header_student:
  "studentOfRow examplePlatform md [Text (ascii ''__proto__'')]
       [Num 1, Text (ascii ''Amina''), Absent, Text femaleLabel, Absent, Num 12] 0
     = Some \<lparr>studentId = ascii ''temp-0'', name = Text (ascii ''Amina''),
             gender = Text femaleLabel, grades = Map.empty, semesterAverage = 12,
             originalRow = [Num 1, Text (ascii ''Amina''), Absent, Text femaleLabel, Absent,
                            Num 12],
             isRepeater = False, sourceClass = Some (classNumber md)\<rparr>"
  by (simp add: studentOfRow_def cellAt_def orElse_def Let_def gradeStep_def
      storeGrade_def decimal.simps trim_def yesLabel_def femaleLabel_def upt_rec)
     (simp add: ascii_def)

section \<open>Properties of the multi-file aggregation\<close>

lemma mergedId_inj: "mergedId (i, j) = mergedId (i', j') \<Longrightarrow> i = i' \<and> j = j'"
proof -
  assume "mergedId (i, j) = mergedId (i', j')"
  then have eq: "decimal i @ 0x2D # 0x73 # decimal j = decimal i' @ 0x2D # 0x73 # decimal j'"
    by (simp add: mergedId_def ascii_def)
  have nodash: "\<forall>c \<in> set (decimal n). c \<noteq> 0x2D" for n
    using decimal_digits [of _ n] by fastforce
  have "takeWhile (\<lambda>c. c \<noteq> 0x2D) (decimal n @ 0x2D # rest) = decimal n" for n rest
    using nodash [of n] by (simp add: takeWhile_append2)
  with eq have "decimal i = decimal i'" by metis
  with eq show ?thesis by (simp add: decimal_inj)
qed

lemma idPairs_mem:
  "(i, j) \<in> set (idPairs k ns) \<longleftrightarrow> k \<le> i \<and> i < k + length ns \<and> j < ns ! (i - k)"
proof (induction ns arbitrary: k i j)
  case Nil
  then show ?case by simp
next
  case (Cons n ns)
  show ?case
  proof (cases "i = k")
    case True
    then show ?thesis by (auto simp: Cons.IH)
  next
    case False
    then have "(i, j) \<in> set (idPairs k (n # ns)) \<longleftrightarrow> (i, j) \<in> set (idPairs (Suc k) ns)"
      by auto
    also have "\<dots> \<longleftrightarrow> Suc k \<le> i \<and> i < Suc k + length ns \<and> j < ns ! (i - Suc k)"
      by (rule Cons.IH)
    also have "\<dots> \<longleftrightarrow> k \<le> i \<and> i < k + length (n # ns) \<and> j < (n # ns) ! (i - k)"
    proof (cases "k < i")
      case True
      then have "i - k = Suc (i - Suc k)" by simp
      then have "(n # ns) ! (i - k) = ns ! (i - Suc k)" by simp
      with True show ?thesis by auto
    next
      case False
      with \<open>i \<noteq> k\<close> show ?thesis by auto
    qed
    finally show ?thesis .
  qed
qed

lemma idPairs_distinct: "distinct (idPairs k ns)"
proof (induction ns arbitrary: k)
  case Nil
  then show ?case by simp
next
  case (Cons n ns)
  have "distinct (map (Pair k) [0..<n])"
    by (simp add: distinct_map inj_on_def)
  moreover have "set (map (Pair k) [0..<n]) \<inter> set (idPairs (Suc k) ns) = {}"
    by (auto simp: idPairs_mem)
  ultimately show ?case using Cons.IH by simp
qed

lemma idPairs_length: "length (idPairs k ns) = sum_list ns"
  by (induction ns arbitrary: k) simp_all

lemma studentsWithIds_ids:
  "map studentId (studentsWithIds i r) = map (\<lambda>j. mergedId (i, j)) [0..<length (resStudents r)]"
  by (rule nth_equalityI) (simp_all add: studentsWithIds_def mergedId_def)

lemma multiLoop_success:
  assumes "multiLoop P k files st = Inr st'"
  shows "\<exists>results. map (parseExcelFile P) files = map Inr results
     \<and> map studentId (combinedStudents st')
         = map studentId (combinedStudents st)
           @ map mergedId (idPairs k (map (\<lambda>r. length (resStudents r)) results))
     \<and> (\<forall>mm. masterMetadata st = Some mm \<longrightarrow> masterMetadata st' = Some mm
           \<and> (\<forall>r \<in> set results. level (resMetadata r) = level mm
                                 \<and> stream (resMetadata r) = stream mm))
     \<and> (masterMetadata st = None \<longrightarrow>
           (case results of [] \<Rightarrow> masterMetadata st' = None
            | r0 # _ \<Rightarrow> masterMetadata st' = Some (resMetadata r0)
                \<and> (\<forall>r \<in> set results. level (resMetadata r) = level (resMetadata r0)
                                      \<and> stream (resMetadata r) = stream (resMetadata r0))))"
  using assms
proof (induction files arbitrary: k st)
  case Nil
  then show ?case by simp
next
  case (Cons f rest)
  from Cons.prems obtain result where pr: "parseExcelFile P f = Inr result"
    by (auto split: sum.splits)
  from Cons.prems pr obtain st1 where ck: "checkMaster f result st = Inr st1"
    by (auto split: sum.splits)
  define st2 where "st2 = st1\<lparr>combinedStudents := combinedStudents st1 @ studentsWithIds k result,
                       processedCount := processedCount st1 + 1\<rparr>"
  from Cons.prems pr ck have loop: "multiLoop P (Suc k) rest st2 = Inr st'"
    by (simp add: st2_def)
  from Cons.IH [OF loop] obtain results where
    rs: "map (parseExcelFile P) rest = map Inr results"
    and ids: "map studentId (combinedStudents st')
         = map studentId (combinedStudents st2)
           @ map mergedId (idPairs (Suc k) (map (\<lambda>r. length (resStudents r)) results))"
    and some: "\<And>mm. masterMetadata st2 = Some mm \<Longrightarrow> masterMetadata st' = Some mm
           \<and> (\<forall>r \<in> set results. level (resMetadata r) = level mm
                                 \<and> stream (resMetadata r) = stream mm)"
    by blast
  have cs1: "combinedStudents st1 = combinedStudents st"
    using ck by (auto simp: checkMaster_def split: option.splits if_splits)
  have ids': "map studentId (combinedStudents st')
         = map studentId (combinedStudents st)
           @ map mergedId (idPairs k (map (\<lambda>r. length (resStudents r)) (result # results)))"
    by (simp add: ids st2_def cs1 studentsWithIds_ids comp_def)
  have "map (parseExcelFile P) (f # rest) = map Inr (result # results)"
    by (simp add: pr rs)
  moreover have "masterMetadata st' = Some mm
           \<and> (\<forall>r \<in> set (result # results). level (resMetadata r) = level mm
                                 \<and> stream (resMetadata r) = stream mm)"
    if mm: "masterMetadata st = Some mm" for mm
  proof -
    from ck mm have "masterMetadata st2 = Some mm"
      "level (resMetadata result) = level mm" "stream (resMetadata result) = stream mm"
      by (auto simp: checkMaster_def st2_def split: if_splits)
    with some [of mm] show ?thesis by simp
  qed
  moreover have "masterMetadata st' = Some (resMetadata result)
                \<and> (\<forall>r \<in> set (result # results). level (resMetadata r) = level (resMetadata result)
                                      \<and> stream (resMetadata r) = stream (resMetadata result))"
    if "masterMetadata st = None"
  proof -
    from ck that have "masterMetadata st2 = Some (resMetadata result)"
      by (auto simp: checkMaster_def st2_def)
    with some [of "resMetadata result"] show ?thesis by simp
  qed
  ultimately show ?case
    using ids' by (intro exI [of _ "result # results"]) simp
qed

lemma multiLoop_mismatch:
  assumes "masterMetadata st = Some mm"
    and "map (parseExcelFile P) (take (Suc j) files) = map Inr rs" and "j < length files"
    and "level (resMetadata (rs ! j)) \<noteq> level mm \<or> stream (resMetadata (rs ! j)) \<noteq> stream mm"
  shows "\<exists>k fld. k \<le> j \<and> fieldOf fld (resMetadata (rs ! k)) \<noteq> fieldOf fld mm
     \<and> multiLoop P idx files st
         = Inl (MetadataMismatch fld (fileName (files ! k)) (fieldOf fld (resMetadata (rs ! k)))
                  (fieldOf fld mm))"
  using assms
proof (induction files arbitrary: j rs idx st)
  case Nil
  then show ?case by simp
next
  case (Cons f rest)
  from Cons.prems(2) obtain r rs' where rs: "rs = r # rs'"
    and pr: "parseExcelFile P f = Inr r"
    and rest: "map (parseExcelFile P) (take j rest) = map Inr rs'"
    by (cases rs) auto
  show ?case
  proof (cases "level (resMetadata r) \<noteq> level mm")
    case True
    then have "multiLoop P idx (f # rest) st
        = Inl (MetadataMismatch LevelField (fileName f) (level (resMetadata r)) (level mm))"
      using Cons.prems(1) by (simp add: pr checkMaster_def)
    with True show ?thesis
      by (intro exI [of _ 0] exI [of _ LevelField]) (simp add: rs)
  next
    case lv: False
    show ?thesis
    proof (cases "stream (resMetadata r) \<noteq> stream mm")
      case True
      then have "multiLoop P idx (f # rest) st
          = Inl (MetadataMismatch StreamField (fileName f) (stream (resMetadata r)) (stream mm))"
        using Cons.prems(1) lv by (simp add: pr checkMaster_def)
      with True show ?thesis
        by (intro exI [of _ 0] exI [of _ StreamField]) (simp add: rs)
    next
      case sm: False
      with lv Cons.prems(4) obtain j' where j: "j = Suc j'"
        by (cases j) (auto simp: rs)
      define st2 where "st2 = st\<lparr>combinedStudents := combinedStudents st @ studentsWithIds idx r,
                       processedCount := processedCount st + 1\<rparr>"
      have step: "multiLoop P idx (f # rest) st = multiLoop P (Suc idx) rest st2"
        using Cons.prems(1) lv sm by (simp add: pr checkMaster_def st2_def)
      have m2: "masterMetadata st2 = Some mm"
        using Cons.prems(1) by (simp add: st2_def)
      have "\<exists>k fld. k \<le> j' \<and> fieldOf fld (resMetadata (rs' ! k)) \<noteq> fieldOf fld mm
         \<and> multiLoop P (Suc idx) rest st2
             = Inl (MetadataMismatch fld (fileName (rest ! k)) (fieldOf fld (resMetadata (rs' ! k)))
                      (fieldOf fld mm))"
      proof (rule Cons.IH [OF m2])
        show "map (parseExcelFile P) (take (Suc j') rest) = map Inr rs'"
          using rest by (simp add: j)
        show "j' < length rest" using Cons.prems(3) by (simp add: j)
        show "level (resMetadata (rs' ! j')) \<noteq> level mm \<or> stream (resMetadata (rs' ! j')) \<noteq> stream mm"
          using Cons.prems(4) by (simp add: j rs)
      qed
      then obtain k fld where k: "k \<le> j'" "fieldOf fld (resMetadata (rs' ! k)) \<noteq> fieldOf fld mm"
        "multiLoop P (Suc idx) rest st2
             = Inl (MetadataMismatch fld (fileName (rest ! k)) (fieldOf fld (resMetadata (rs' ! k)))
                      (fieldOf fld mm))"
        by blast
      then show ?thesis
        by (intro exI [of _ "Suc k"] exI [of _ fld]) (simp add: step rs j del: multiLoop.simps)
    qed
  qed
qed

lemma multiMode_mismatch:
  assumes "map (parseExcelFile P) (take (Suc j) files) = map Inr rs"
    and "0 < j" and "j < length files"
    and "level (resMetadata (rs ! j)) \<noteq> level (resMetadata (rs ! 0))
         \<or> stream (resMetadata (rs ! j)) \<noteq> stream (resMetadata (rs ! 0))"
  shows "\<exists>k fld. 0 < k \<and> k \<le> j
     \<and> fieldOf fld (resMetadata (rs ! k)) \<noteq> fieldOf fld (resMetadata (rs ! 0))
     \<and> multiMode P files
         = Inl (MetadataMismatch fld (fileName (files ! k)) (fieldOf fld (resMetadata (rs ! k)))
                  (fieldOf fld (resMetadata (rs ! 0))))"
proof -
  from assms(3) obtain f0 rest where files: "files = f0 # rest" by (cases files) auto
  from assms(1) files obtain r0 rs' where rs: "rs = r0 # rs'"
    and pr: "parseExcelFile P f0 = Inr r0"
    and rest: "map (parseExcelFile P) (take j rest) = map Inr rs'"
    by (cases rs) auto
  from assms(2) obtain j' where j: "j = Suc j'" by (cases j) auto
  define st2 where "st2 = initialMultiState\<lparr>masterMetadata := Some (resMetadata r0),
       masterSubjects := resSubjects r0,
       combinedStudents := combinedStudents initialMultiState @ studentsWithIds 0 r0,
       processedCount := processedCount initialMultiState + 1\<rparr>"
  have step: "multiLoop P 0 (f0 # rest) initialMultiState = multiLoop P (Suc 0) rest st2"
    by (simp add: pr checkMaster_def initialMultiState_def st2_def)
  have m2: "masterMetadata st2 = Some (resMetadata r0)"
    by (simp add: st2_def)
  have "\<exists>k fld. k \<le> j' \<and> fieldOf fld (resMetadata (rs' ! k)) \<noteq> fieldOf fld (resMetadata r0)
     \<and> multiLoop P (Suc 0) rest st2
         = Inl (MetadataMismatch fld (fileName (rest ! k)) (fieldOf fld (resMetadata (rs' ! k)))
                  (fieldOf fld (resMetadata r0)))"
  proof (rule multiLoop_mismatch [OF m2])
    show "map (parseExcelFile P) (take (Suc j') rest) = map Inr rs'"
      using rest by (simp add: j)
    show "j' < length rest" using assms(3) by (simp add: j files)
    show "level (resMetadata (rs' ! j')) \<noteq> level (resMetadata r0)
          \<or> stream (resMetadata (rs' ! j')) \<noteq> stream (resMetadata r0)"
      using assms(4) by (simp add: j rs)
  qed
  then obtain k fld where k: "k \<le> j'"
    "fieldOf fld (resMetadata (rs' ! k)) \<noteq> fieldOf fld (resMetadata r0)"
    "multiLoop P (Suc 0) rest st2
         = Inl (MetadataMismatch fld (fileName (rest ! k)) (fieldOf fld (resMetadata (rs' ! k)))
                  (fieldOf fld (resMetadata r0)))"
    by blast
  then show ?thesis
    by (intro exI [of _ "Suc k"] exI [of _ fld])
      (simp add: multiMode_def step rs j files del: multiLoop.simps)
qed

lemma multiMode_success:
  assumes "multiMode P files = Inr (sts, subjs, md)"
  shows "\<exists>results. map (parseExcelFile P) files = map Inr results
     \<and> map studentId sts = map mergedId (idPairs 0 (map (\<lambda>r. length (resStudents r)) results))
     \<and> (\<forall>r \<in> set results. level (resMetadata r) = level (resMetadata (results ! 0))
                          \<and> stream (resMetadata r) = stream (resMetadata (results ! 0)))"
proof -
  from assms obtain st where loop: "multiLoop P 0 files initialMultiState = Inr st"
    and sts: "sts = combinedStudents st"
    by (auto simp: multiMode_def split: sum.splits option.splits)
  from multiLoop_success [OF loop] obtain results where
    rs: "map (parseExcelFile P) files = map Inr results"
    and ids: "map studentId (combinedStudents st)
         = map studentId (combinedStudents initialMultiState)
           @ map mergedId (idPairs 0 (map (\<lambda>r. length (resStudents r)) results))"
    and none: "masterMetadata initialMultiState = None \<longrightarrow>
           (case results of [] \<Rightarrow> masterMetadata st = None
            | r0 # _ \<Rightarrow> masterMetadata st = Some (resMetadata r0)
                \<and> (\<forall>r \<in> set results. level (resMetadata r) = level (resMetadata r0)
                                      \<and> stream (resMetadata r) = stream (resMetadata r0)))"
    by (elim exE conjE) (rule that)
  have "\<forall>r \<in> set results. level (resMetadata r) = level (resMetadata (results ! 0))
                          \<and> stream (resMetadata r) = stream (resMetadata (results ! 0))"
    using none by (cases results) (simp_all add: initialMultiState_def)
  with rs ids sts show ?thesis
    by (intro exI [of _ results]) (simp add: initialMultiState_def)
qed

subsection \<open>The example files\<close>

lemma example_notHeader:
  "\<not> isHeaderRow examplePlatform []"
  "\<not> isHeaderRow examplePlatform [Text (ascii ''x x s1 s2 2024 1 as 3'')]"
  "\<not> isHeaderRow examplePlatform [Text (ascii ''x x s1 s2 2024 2 as 3'')]"
  by (simp_all add: isHeaderRow_def examplePlatform_def joinCells_def ascii_def Let_def
      keywordIsm_def keywordLaqab_def keywordNom_def keywordPrenom_def)

lemma example_sheet_headerRowIndex:
  "headerRowIndex examplePlatform (exampleSheet (ascii ''1'')) = 5"
  "headerRowIndex examplePlatform (exampleSheet (ascii ''2'')) = 5"
  using example_notHeader example_isHeaderRow
  by (simp_all add: headerRowIndex_def exampleSheet_def ascii_def)

lemma example_sheet_pruneRows:
  "pruneRows examplePlatform (exampleSheet (ascii ''1'')) = [exampleHeader, exampleRowA]"
  "pruneRows examplePlatform (exampleSheet (ascii ''2'')) = [exampleHeader, exampleRowA]"
  by (simp_all add: pruneRows_cases rowsFromHeader_rev example_sheet_headerRowIndex
      example_rows_nonempty) (simp_all add: exampleSheet_def example_rows_nonempty)

lemma example_sheet_metadata:
  "extractMetadata examplePlatform (exampleSheet (ascii ''1'')) = exampleMetadata (ascii ''1'')"
  "extractMetadata examplePlatform (exampleSheet (ascii ''2'')) = exampleMetadata (ascii ''2'')"
  by (simp_all add: extractMetadata_def exampleSheet_def exampleMetadata_def emptyMetadata_def
      joinCells_def trim_def isWhiteSpace_def wordAt_def ascii_def Let_def)

lemma example_sheet_length: "length (exampleSheet lv) = 8"
  by (simp add: exampleSheet_def)

lemma example_studentA_eq:
  "studentOfRow examplePlatform (exampleMetadata lv)
     [Text (ascii ''math''), Text (ascii ''physics'')] exampleRowA 0 = Some exampleStudentA"
  by (simp add: example_studentA exampleStudentA_def exampleMetadata_def)

lemma example_active_subjects:
  "hasPositiveGrade examplePlatform (Text (ascii ''math'')) exampleStudentA"
  "hasPositiveGrade examplePlatform (Text (ascii ''physics'')) exampleStudentA"
  by (simp_all add: hasPositiveGrade_def exampleStudentA_def ascii_def)

lemma example_sheet_parse:
  "parseSheet examplePlatform (exampleSheet (ascii ''1'')) = Inr (exampleResult (ascii ''1''))"
  "parseSheet examplePlatform (exampleSheet (ascii ''2'')) = Inr (exampleResult (ascii ''2''))"
  unfolding parseSheet_def Let_def example_sheet_pruneRows example_sheet_metadata
    example_sheet_length
  by (simp_all add: example_header_length example_candidateSubjects buildStudents_def
      List.map_filter_def example_studentA_eq example_active_subjects exampleResult_def)

lemma example_file_parse:
  "parseExcelFile examplePlatform (exampleFileA (ascii ''1'')) = Inr (exampleResult (ascii ''1''))"
  "parseExcelFile examplePlatform (exampleFileB (ascii ''1'')) = Inr (exampleResult (ascii ''1''))"
  "parseExcelFile examplePlatform (exampleFileB (ascii ''2'')) = Inr (exampleResult (ascii ''2''))"
  by (simp_all add: parseExcelFile_def exampleFileA_def exampleFileB_def example_sheet_parse)

subsection \<open>Claims about the aggregation\<close>

lemma processFiles_multi:
  "files \<noteq> [] \<Longrightarrow> processFiles P Multi files =
     (case multiMode P files of
        Inl e \<Rightarrow> \<lparr>shownError = Some (errorMessage e), delivered = None\<rparr>
      | Inr d \<Rightarrow> \<lparr>shownError = None, delivered = Some d\<rparr>)"
  by (simp add: processFiles_def)

text \<open>
  Claim C2. In the multi-file mode, let the files up to the one of index \<open>j > 0\<close> parse,
  and let the level or the stream of file \<open>j\<close> differ from that of the first file. Then
  the batch stops at the first file \<open>k \<le> j\<close> that differs: the message shown is the
  mismatch message, which quotes the name of file \<open>k\<close>, its value and the value of the
  first file, and \<open>onDataLoaded\<close> is not called. Moreover, whenever the first file and some
  later file parse with different levels or streams, nothing is delivered, whatever the
  other files are.
\<close>

theorem metadata_mismatch_aborts_batch:
  "(map (parseExcelFile P) (take (Suc j) files) = map Inr rs \<and> 0 < j \<and> j < length files
     \<and> (level (resMetadata (rs ! j)) \<noteq> level (resMetadata (rs ! 0))
         \<or> stream (resMetadata (rs ! j)) \<noteq> stream (resMetadata (rs ! 0)))
    \<longrightarrow> (\<exists>k fld. 0 < k \<and> k \<le> j
          \<and> fieldOf fld (resMetadata (rs ! k)) \<noteq> fieldOf fld (resMetadata (rs ! 0))
          \<and> shownError (processFiles P Multi files)
              = Some (errorMessage (MetadataMismatch fld (fileName (files ! k))
                        (fieldOf fld (resMetadata (rs ! k)))
                        (fieldOf fld (resMetadata (rs ! 0)))))
          \<and> errorMessage (MetadataMismatch fld (fileName (files ! k))
                (fieldOf fld (resMetadata (rs ! k))) (fieldOf fld (resMetadata (rs ! 0))))
              = msgMismatchHead @ fileName (files ! k)
                @ (case fld of LevelField \<Rightarrow> msgLevelDiffers | StreamField \<Rightarrow> msgStreamDiffers)
                @ fieldOf fld (resMetadata (rs ! k)) @ msgThanFirst
                @ fieldOf fld (resMetadata (rs ! 0))
                @ (case fld of LevelField \<Rightarrow> msgLevelTail | StreamField \<Rightarrow> msgStreamTail)
          \<and> delivered (processFiles P Multi files) = None))
   \<and> (0 < i \<and> i < length files
       \<and> parseExcelFile P (files ! 0) = Inr r0 \<and> parseExcelFile P (files ! i) = Inr ri
       \<and> (level (resMetadata ri) \<noteq> level (resMetadata r0)
           \<or> stream (resMetadata ri) \<noteq> stream (resMetadata r0))
      \<longrightarrow> delivered (processFiles P Multi files) = None)"
proof (intro conjI impI)
  assume a: "map (parseExcelFile P) (take (Suc j) files) = map Inr rs \<and> 0 < j \<and> j < length files
     \<and> (level (resMetadata (rs ! j)) \<noteq> level (resMetadata (rs ! 0))
         \<or> stream (resMetadata (rs ! j)) \<noteq> stream (resMetadata (rs ! 0)))"
  then have ne: "files \<noteq> []" by auto
  from a multiMode_mismatch [of P j files rs] obtain k fld where
    k: "0 < k" "k \<le> j"
      "fieldOf fld (resMetadata (rs ! k)) \<noteq> fieldOf fld (resMetadata (rs ! 0))"
      "multiMode P files
         = Inl (MetadataMismatch fld (fileName (files ! k)) (fieldOf fld (resMetadata (rs ! k)))
                  (fieldOf fld (resMetadata (rs ! 0))))"
    by blast
  have msg: "errorMessage (MetadataMismatch fld n a b)
      = msgMismatchHead @ n
        @ (case fld of LevelField \<Rightarrow> msgLevelDiffers | StreamField \<Rightarrow> msgStreamDiffers)
        @ a @ msgThanFirst @ b
        @ (case fld of LevelField \<Rightarrow> msgLevelTail | StreamField \<Rightarrow> msgStreamTail)" for n a b
    by (cases fld) simp_all
  from k show "\<exists>k fld. 0 < k \<and> k \<le> j
          \<and> fieldOf fld (resMetadata (rs ! k)) \<noteq> fieldOf fld (resMetadata (rs ! 0))
          \<and> shownError (processFiles P Multi files)
              = Some (errorMessage (MetadataMismatch fld (fileName (files ! k))
                        (fieldOf fld (resMetadata (rs ! k)))
                        (fieldOf fld (resMetadata (rs ! 0)))))
          \<and> errorMessage (MetadataMismatch fld (fileName (files ! k))
                (fieldOf fld (resMetadata (rs ! k))) (fieldOf fld (resMetadata (rs ! 0))))
              = msgMismatchHead @ fileName (files ! k)
                @ (case fld of LevelField \<Rightarrow> msgLevelDiffers | StreamField \<Rightarrow> msgStreamDiffers)
                @ fieldOf fld (resMetadata (rs ! k)) @ msgThanFirst
                @ fieldOf fld (resMetadata (rs ! 0))
                @ (case fld of LevelField \<Rightarrow> msgLevelTail | StreamField \<Rightarrow> msgStreamTail)
          \<and> delivered (processFiles P Multi files) = None"
    by (intro exI [of _ k] exI [of _ fld]) (simp add: processFiles_multi [OF ne] msg)
next
  assume b: "0 < i \<and> i < length files
       \<and> parseExcelFile P (files ! 0) = Inr r0 \<and> parseExcelFile P (files ! i) = Inr ri
       \<and> (level (resMetadata ri) \<noteq> level (resMetadata r0)
           \<or> stream (resMetadata ri) \<noteq> stream (resMetadata r0))"
  then have ne: "files \<noteq> []" by auto
  show "delivered (processFiles P Multi files) = None"
  proof (cases "multiMode P files")
    case (Inl e)
    then show ?thesis by (simp add: processFiles_multi [OF ne])
  next
    case (Inr d)
    obtain sts subjs md where d: "d = (sts, subjs, md)" by (cases d) auto
    from multiMode_success [OF Inr [unfolded d]] obtain results where
      rs: "map (parseExcelFile P) files = map Inr results"
      and same: "\<forall>r \<in> set results. level (resMetadata r) = level (resMetadata (results ! 0))
                          \<and> stream (resMetadata r) = stream (resMetadata (results ! 0))"
      by blast
    from rs have len: "length results = length files" by (metis length_map)
    from rs b len have "results ! 0 = r0" "results ! i = ri"
      by (metis Inr_inject nth_map length_map less_trans)+
    moreover from b len have "results ! i \<in> set results" by simp
    ultimately show ?thesis using same b by metis
  qed
qed

theorem metadata_mismatch_aborts_batch_witness:
  "map (parseExcelFile examplePlatform)
       (take (Suc 1) [exampleFileA (ascii ''1''), exampleFileB (ascii ''2'')])
     = map Inr [exampleResult (ascii ''1''), exampleResult (ascii ''2'')]
   \<and> (0::nat) < 1 \<and> 1 < length [exampleFileA (ascii ''1''), exampleFileB (ascii ''2'')]
   \<and> level (resMetadata ([exampleResult (ascii ''1''), exampleResult (ascii ''2'')] ! 1))
       \<noteq> level (resMetadata ([exampleResult (ascii ''1''), exampleResult (ascii ''2'')] ! 0))
   \<and> delivered (processFiles examplePlatform Multi
        [exampleFileA (ascii ''1''), exampleFileB (ascii ''2'')]) = None
   \<and> shownError (processFiles examplePlatform Multi
        [exampleFileA (ascii ''1''), exampleFileB (ascii ''2'')])
       = Some (msgMismatchHead @ ascii ''b.xlsx'' @ msgLevelDiffers @ ascii ''2 as''
               @ msgThanFirst @ ascii ''1 as'' @ msgLevelTail)"
proof -
  let ?files = "[exampleFileA (ascii ''1''), exampleFileB (ascii ''2'')]"
  let ?rs = "[exampleResult (ascii ''1''), exampleResult (ascii ''2'')]"
  have h1: "map (parseExcelFile examplePlatform) (take (Suc 1) ?files) = map Inr ?rs"
    by (simp add: example_file_parse)
  have h2: "level (resMetadata (?rs ! 1)) \<noteq> level (resMetadata (?rs ! 0))"
    by (simp add: exampleResult_def exampleMetadata_def ascii_def)
  have st: "stream (resMetadata (?rs ! 1)) = stream (resMetadata (?rs ! 0))"
    by (simp add: exampleResult_def exampleMetadata_def)
  have hyp: "map (parseExcelFile examplePlatform) (take (Suc 1) ?files) = map Inr ?rs
      \<and> 0 < (1::nat) \<and> 1 < length ?files
      \<and> (level (resMetadata (?rs ! 1)) \<noteq> level (resMetadata (?rs ! 0))
          \<or> stream (resMetadata (?rs ! 1)) \<noteq> stream (resMetadata (?rs ! 0)))"
    using h1 h2 by simp
  from metadata_mismatch_aborts_batch
    [where P = examplePlatform and j = 1 and files = ?files and rs = ?rs,
      THEN conjunct1, THEN mp, OF hyp]
  obtain k fld where k: "0 < k" "k \<le> 1"
    "fieldOf fld (resMetadata (?rs ! k)) \<noteq> fieldOf fld (resMetadata (?rs ! 0))"
    "shownError (processFiles examplePlatform Multi ?files)
       = Some (errorMessage (MetadataMismatch fld (fileName (?files ! k))
                        (fieldOf fld (resMetadata (?rs ! k)))
                        (fieldOf fld (resMetadata (?rs ! 0)))))"
    "delivered (processFiles examplePlatform Multi ?files) = None"
    by (elim exE conjE) (rule that)
  from k(1,2) have k1: "k = 1" by simp
  from k(3) st have fld: "fld = LevelField" by (cases fld) (simp_all add: k1)
  have "shownError (processFiles examplePlatform Multi ?files)
       = Some (msgMismatchHead @ ascii ''b.xlsx'' @ msgLevelDiffers @ ascii ''2 as''
               @ msgThanFirst @ ascii ''1 as'' @ msgLevelTail)"
    using k(4) by (simp add: k1 fld exampleFileB_def exampleResult_def exampleMetadata_def ascii_def)
  with h1 h2 k(5) show ?thesis by (simp del: take_Suc_Cons)
qed

text \<open>
  Claim C8. When the multi-file mode delivers a merged list, every file has parsed, the
  list has as many students as the files have together, its identifiers are, in order,
  \<open>f\<close>, the index of the file, \<open>-s\<close> and the index of the student within the file, and
  no two of them are equal.
\<close>

theorem merged_ids_distinct:
  assumes "delivered (processFiles P Multi files) = Some (sts, subjs, md)"
  shows "\<exists>results. map (parseExcelFile P) files = map Inr results
     \<and> length sts = sum_list (map (\<lambda>r. length (resStudents r)) results)
     \<and> map studentId sts = map mergedId (idPairs 0 (map (\<lambda>r. length (resStudents r)) results))
     \<and> (\<forall>s \<in> set sts. \<exists>i j. i < length files \<and> j < length (resStudents (results ! i))
            \<and> studentId s = ascii ''f'' @ decimal i @ ascii ''-s'' @ decimal j)
     \<and> distinct (map studentId sts)"
proof -
  from assms have ne: "files \<noteq> []"
    by (auto simp: processFiles_def)
  from assms have "multiMode P files = Inr (sts, subjs, md)"
    by (auto simp: processFiles_multi [OF ne] split: sum.splits)
  from multiMode_success [OF this] obtain results where
    rs: "map (parseExcelFile P) files = map Inr results"
    and ids: "map studentId sts = map mergedId (idPairs 0 (map (\<lambda>r. length (resStudents r)) results))"
    by blast
  let ?ns = "map (\<lambda>r. length (resStudents r)) results"
  from rs have len: "length results = length files" by (metis length_map)
  have "length sts = length (map studentId sts)" by simp
  also have "\<dots> = sum_list ?ns" by (simp only: ids length_map idPairs_length)
  finally have count: "length sts = sum_list ?ns" .
  have inj: "inj_on mergedId (set (idPairs 0 ?ns))"
    by (rule inj_onI) (auto dest: mergedId_inj)
  have dist: "distinct (map studentId sts)"
    unfolding ids by (simp add: distinct_map idPairs_distinct inj)
  have form: "\<exists>i j. i < length files \<and> j < length (resStudents (results ! i))
            \<and> studentId s = ascii ''f'' @ decimal i @ ascii ''-s'' @ decimal j"
    if "s \<in> set sts" for s
  proof -
    from that have "studentId s \<in> set (map studentId sts)" by simp
    then obtain i j where ij: "(i, j) \<in> set (idPairs 0 ?ns)" "studentId s = mergedId (i, j)"
      unfolding ids by auto
    from ij(1) have i: "i < length results" and "j < ?ns ! i"
      by (auto simp: idPairs_mem)
    then have "j < length (resStudents (results ! i))" by auto
    with i ij(2) len show ?thesis by (auto simp: mergedId_def)
  qed
  from rs count ids form dist show ?thesis by blast
qed

theorem merged_ids_distinct_witness:
  "\<exists>sts subjs md.
     delivered (processFiles examplePlatform Multi
        [exampleFileA (ascii ''1''), exampleFileB (ascii ''1'')]) = Some (sts, subjs, md)
     \<and> map studentId sts = [ascii ''f0-s0'', ascii ''f1-s0'']
     \<and> length sts = 2
     \<and> distinct (map studentId sts)"
proof -
  let ?files = "[exampleFileA (ascii ''1''), exampleFileB (ascii ''1'')]"
  have "\<exists>subjs md. multiMode examplePlatform ?files
      = Inr (studentsWithIds 0 (exampleResult (ascii ''1''))
             @ studentsWithIds 1 (exampleResult (ascii ''1'')), subjs, md)"
    by (simp add: multiMode_def example_file_parse checkMaster_def initialMultiState_def)
  then have "\<exists>subjs md. delivered (processFiles examplePlatform Multi ?files)
      = Some (studentsWithIds 0 (exampleResult (ascii ''1''))
             @ studentsWithIds 1 (exampleResult (ascii ''1'')), subjs, md)"
    by (auto simp: processFiles_multi)
  moreover have "map studentId (studentsWithIds 0 (exampleResult (ascii ''1''))
             @ studentsWithIds 1 (exampleResult (ascii ''1'')))
      = [ascii ''f0-s0'', ascii ''f1-s0'']"
    by (simp add: studentsWithIds_def exampleResult_def decimal.simps ascii_def)
  ultimately have "\<exists>sts subjs md. delivered (processFiles examplePlatform Multi ?files) = Some (sts, subjs, md)
      \<and> map studentId sts = [ascii ''f0-s0'', ascii ''f1-s0'']"
    by (elim exE) (intro exI conjI, assumption+)
  then obtain sts subjs md where
    d: "delivered (processFiles examplePlatform Multi ?files) = Some (sts, subjs, md)"
    and ids: "map studentId sts = [ascii ''f0-s0'', ascii ''f1-s0'']"
    by (elim exE conjE) (rule that)
  from merged_ids_distinct [OF d] have dist: "distinct (map studentId sts)"
    by (elim exE conjE)
  from ids have len: "length sts = 2"
    by (metis length_map length_Cons list.size(3) numeral_2_eq_2)
  show ?thesis
    by (rule exI [of _ sts], rule exI [of _ subjs], rule exI [of _ md])
      (intro conjI d ids len dist)
qed

end
